theory Spec2Isabelle
  imports Complex_Main "HOL-Library.Char_ord" "HOL-Library.List_Lexorder" "HOL-Library.Sublist"
    "HOL-Library.Multiset"
begin

section \<open>SimpleCross: the order-matching engine of simple\_cross.cpp\<close>

text \<open>
  The repository holds two versions of the program. The embedding follows the complete
  one (634 lines), whose \<open>SimpleCross\<close> class has \<open>_placeOrder\<close>, \<open>_cancelOrder\<close>,
  \<open>_printSortedBook\<close>, \<open>_fillBid\<close>, \<open>_fillAsk\<close> and \<open>_validateOrderId\<close>. The other
  (473 lines) is an earlier draft of the same file: its \<open>_cancelOrder\<close> only logs the
  identifier and it records no fills; its \<open>action\<close> ends with the same
  \<open>return results_t();\<close>.

  The member \<open>debug\<close> is \<open>false\<close>, so \<open>_log\<close> prints nothing and \<open>_logSortedBook\<close> is
  never called; both are left out. Everything else the program writes goes through the
  free function \<open>log\<close> to standard output, which the model returns as a list of lines.
\<close>

subsection \<open>Type definitions\<close>

text \<open>
  \<open>OrderId\<close> is \<open>uint32_t\<close> and \<open>Quantity\<close> is \<open>uint16_t\<close>: natural numbers, with the
  reduction modulo \<open>2^32\<close> and \<open>2^16\<close> written out at the two casts of \<open>action\<close>. The only
  arithmetic on a quantity is \<open>q -= min(r, q)\<close>, which never wraps.

  \<open>Price\<close> is \<open>double\<close>: a finite double is the rational number it denotes, and there
  are the two infinities and not-a-number. The sign of a zero and the payload of a NaN
  are not kept: the two zeros compare equal, and no NaN compares with anything. The
  program compares prices, uses them as map keys and prints them; it computes nothing
  with them.
\<close>

datatype Side = BUY | SELL

datatype Price = Number rat | PlusInfinity | MinusInfinity | NaN

type_synonym OrderId = nat
type_synonym Symbol = string
type_synonym Quantity = nat

record Order =
  oid :: OrderId
  symbol :: Symbol
  side :: Side
  qty :: Quantity
  px :: Price

record Fill =
  fill_oid :: OrderId
  fill_symbol :: Symbol
  fill_qty :: Quantity
  fill_px :: Price

type_synonym OrderQueue = "Order list"
type_synonym PriceLevels = "(Price \<times> OrderQueue) list"

record Sides =
  bids :: PriceLevels
  asks :: PriceLevels

type_synonym OrderBook = "(Symbol \<times> Sides) list"
type_synonym OrderCache = "(OrderId \<times> Order) list"

record SimpleCross =
  orderBook :: OrderBook
  orderCache :: OrderCache

text \<open>
  What leaves a call otherwise than by \<open>return\<close>: the two standard exceptions the program
  throws or lets through (nothing catches them but the \<open>out_of_range\<close> of
  \<open>_cancelOrder\<close>, so they end the process), and undefined behaviour.
\<close>

datatype error =
  invalid_argument string
  | out_of_range string
  | undefined_behaviour string

text \<open>
  A line written by \<open>log\<close>. \<open>FLine i s q p\<close> is the text
  \<open>"F " + to_string(i) + " " + s + " " + to_string(q) + " " + to_string(p)\<close>,
  \<open>XLine i\<close> is \<open>"X " + to_string(i)\<close>, \<open>ELine i m\<close> is
  \<open>"E " + to_string(i) + " " + m\<close>, \<open>PLine i s d q p\<close> is the book entry
  \<open>"P " + to_string(i) + " " + s + " " + d + " " + to_string(q) + " " + to_string(p)\<close>,
  and \<open>TextLine t\<close> is the text \<open>t\<close> itself.
\<close>

datatype out_line =
  FLine OrderId Symbol Quantity Price
  | XLine OrderId
  | ELine OrderId string
  | PLine OrderId Symbol Side Quantity Price
  | TextLine string

definition bind_err :: "error + 'a \<Rightarrow> ('a \<Rightarrow> error + 'b) \<Rightarrow> error + 'b" where
  "bind_err r f = (case r of Inl e \<Rightarrow> Inl e | Inr v \<Rightarrow> f v)"

subsection \<open>std::map as a list of pairs in ascending key order\<close>

text \<open>
  The maps keyed by a symbol (\<open>OrderBook\<close>) and by an identifier (\<open>OrderCache\<close>): their
  keys are totally ordered.
\<close>

definition map_find :: "'k \<Rightarrow> ('k \<times> 'v) list \<Rightarrow> 'v option" where
  "map_find k m = map_of m k"

text \<open>\<open>insert\<close> leaves the map alone when the key is present.\<close>

definition map_insert :: "'k::linorder \<Rightarrow> 'v \<Rightarrow> ('k \<times> 'v) list \<Rightarrow> ('k \<times> 'v) list" where
  "map_insert k v m =
     (case map_find k m of None \<Rightarrow> insort_key fst (k, v) m | Some u \<Rightarrow> m)"

text \<open>
  \<open>m[k]\<close> default-constructs the value when the key is absent and yields a reference to
  it: \<open>map_subscript k d m\<close> is the map after that, \<open>map_at k d m\<close> the value referred to,
  and \<open>map_assign k v m\<close> a write through the reference.
\<close>

definition map_subscript :: "'k::linorder \<Rightarrow> 'v \<Rightarrow> ('k \<times> 'v) list \<Rightarrow> ('k \<times> 'v) list" where
  "map_subscript k d m = map_insert k d m"

definition map_at :: "'k \<Rightarrow> 'v \<Rightarrow> ('k \<times> 'v) list \<Rightarrow> 'v" where
  "map_at k d m = (case map_find k m of None \<Rightarrow> d | Some v \<Rightarrow> v)"

definition map_assign :: "'k \<Rightarrow> 'v \<Rightarrow> ('k \<times> 'v) list \<Rightarrow> ('k \<times> 'v) list" where
  "map_assign k v m = map (\<lambda>kv. if fst kv = k then (k, v) else kv) m"

definition no_sides :: Sides where
  "no_sides = \<lparr>bids = [], asks = []\<rparr>"

subsection \<open>Comparing doubles, and std::map keyed by a double\<close>

text \<open>
  The operator \<open><\<close> of doubles: false whenever an operand is NaN. \<open>a <= b\<close> holds when
  \<open>a < b\<close> or the two are equal numbers or equal infinities.
\<close>

fun px_less :: "Price \<Rightarrow> Price \<Rightarrow> bool" where
  "px_less (Number x) (Number y) = (x < y)"
| "px_less (Number x) PlusInfinity = True"
| "px_less MinusInfinity (Number y) = True"
| "px_less MinusInfinity PlusInfinity = True"
| "px_less a b = False"

definition px_le :: "Price \<Rightarrow> Price \<Rightarrow> bool" where
  "px_le a b = (px_less a b \<or> (a = b \<and> a \<noteq> NaN))"

text \<open>
  \<open>PriceLevels\<close> is \<open>std::map<Price, OrderQueue>\<close> with the comparison \<open>std::less<double>\<close>.
  Two keys are the same key of the map when neither is less than the other, so a NaN is
  the same key as any other price. The map's operations require the comparison to be a
  strict weak ordering of the keys they meet: \<open>weak_order\<close> says so of a list of keys (with
  a NaN among them, no two other keys may differ). Where it fails the behaviour is
  undefined; the functions that call these operations check it.
\<close>

definition px_equiv :: "Price \<Rightarrow> Price \<Rightarrow> bool" where
  "px_equiv a b = (\<not> px_less a b \<and> \<not> px_less b a)"

definition weak_order :: "Price list \<Rightarrow> bool" where
  "weak_order ks =
     (if list_ex (\<lambda>k. k = NaN) ks
      then list_all (\<lambda>a. list_all (\<lambda>b. a = NaN \<or> b = NaN \<or> a = b) ks) ks
      else True)"

definition levels_find :: "Price \<Rightarrow> PriceLevels \<Rightarrow> (Price \<times> OrderQueue) option" where
  "levels_find p m = find (\<lambda>kv. px_equiv p (fst kv)) m"

text \<open>The place of a new key: behind the keys that are less.\<close>

fun levels_put :: "Price \<Rightarrow> OrderQueue \<Rightarrow> PriceLevels \<Rightarrow> PriceLevels" where
  "levels_put p v [] = [(p, v)]"
| "levels_put p v (kv # m) =
     (if px_less (fst kv) p then kv # levels_put p v m else (p, v) # kv # m)"

definition levels_insert :: "Price \<Rightarrow> OrderQueue \<Rightarrow> PriceLevels \<Rightarrow> PriceLevels" where
  "levels_insert p v m = (case levels_find p m of None \<Rightarrow> levels_put p v m | Some kv \<Rightarrow> m)"

definition levels_erase :: "Price \<Rightarrow> PriceLevels \<Rightarrow> PriceLevels" where
  "levels_erase p m = filter (\<lambda>kv. \<not> px_equiv p (fst kv)) m"

text \<open>
  \<open>m[p]\<close>: \<open>levels_subscript p m\<close> is the map after the access, \<open>levels_at p m\<close> the queue
  referred to, and \<open>levels_assign p q m\<close> a write through the reference (the entry
  keeps its own key).
\<close>

definition levels_subscript :: "Price \<Rightarrow> PriceLevels \<Rightarrow> PriceLevels" where
  "levels_subscript p m = levels_insert p [] m"

definition levels_at :: "Price \<Rightarrow> PriceLevels \<Rightarrow> OrderQueue" where
  "levels_at p m = (case levels_find p m of None \<Rightarrow> [] | Some kv \<Rightarrow> snd kv)"

definition levels_assign :: "Price \<Rightarrow> OrderQueue \<Rightarrow> PriceLevels \<Rightarrow> PriceLevels" where
  "levels_assign p q m = map (\<lambda>kv. if px_equiv p (fst kv) then (fst kv, q) else kv) m"

definition broken_order :: error where
  "broken_order = undefined_behaviour ''std::map: the comparison is no strict weak ordering of the keys''"

subsection \<open>Reading a line\<close>

text \<open>
  \<open>_splitLine\<close>: \<open>std::getline\<close> with a delimiter, until it extracts nothing at the end
  of the text. A final empty piece is therefore not produced.
\<close>

fun splitLine :: "string \<Rightarrow> char \<Rightarrow> string list" where
  "splitLine [] delim = []"
| "splitLine (c # cs) delim =
     (if c = delim then [] # splitLine cs delim
      else (case splitLine cs delim of
              [] \<Rightarrow> [[c]]
            | item # items \<Rightarrow> (c # item) # items))"

definition isspace :: "char \<Rightarrow> bool" where
  "isspace c = (of_char c \<in> {32, 9, 10, 11, 12, 13 :: nat})"

definition isdigit :: "char \<Rightarrow> bool" where
  "isdigit c = (48 \<le> (of_char c :: nat) \<and> (of_char c :: nat) \<le> 57)"

definition digits_value :: "string \<Rightarrow> nat" where
  "digits_value ds = foldl (\<lambda>a c. 10 * a + (of_char c - 48)) 0 ds"

text \<open>An optional sign in front of the digits: whether it is a minus, and the rest.\<close>

fun strip_sign :: "string \<Rightarrow> bool \<times> string" where
  "strip_sign [] = (False, [])"
| "strip_sign (c # cs) =
     (if c = CHR ''-'' then (True, cs)
      else if c = CHR ''+'' then (False, cs)
      else (False, c # cs))"

text \<open>
  \<open>std::stoi\<close> (base 10): white space, an optional sign, then the longest run of digits;
  \<open>invalid_argument\<close> when there is no digit, \<open>out_of_range\<close> when the value does not
  fit \<open>int\<close>; whatever follows the digits is ignored.
\<close>

definition stoi :: "string \<Rightarrow> error + int" where
  "stoi str =
     (let (neg, rest) = strip_sign (dropWhile isspace str);
          ds = takeWhile isdigit rest;
          v = (if neg then - int (digits_value ds) else int (digits_value ds))
      in if ds = [] then Inl (invalid_argument ''stoi'')
         else if v < - 2147483648 \<or> 2147483647 < v then Inl (out_of_range ''stoi'')
         else Inr v)"

text \<open>
  \<open>std::stod\<close>, that is \<open>strtod\<close> in the C locale as the GNU C library implements it,
  with \<open>invalid_argument\<close> when nothing is converted and \<open>out_of_range\<close> when \<open>strtod\<close>
  reports \<open>ERANGE\<close>. After white space and an optional sign it reads the longest of:
  \<open>inf\<close> or \<open>infinity\<close>; \<open>nan\<close> with an optional parenthesised sequence; a hexadecimal
  number (\<open>0x\<close>, hexadecimal digits with an optional point, an optional binary exponent
  behind \<open>p\<close>); a decimal number (digits with an optional point, an optional decimal
  exponent behind \<open>e\<close>). Letters count in either case, and whatever follows is ignored.
\<close>

definition tolower :: "char \<Rightarrow> char" where
  "tolower c = (if 65 \<le> (of_char c :: nat) \<and> (of_char c :: nat) \<le> 90
                then char_of (of_char c + 32 :: nat) else c)"

definition starts_with :: "string \<Rightarrow> string \<Rightarrow> bool" where
  "starts_with pattern str = (map tolower (take (length pattern) str) = pattern)"

definition isxdigit :: "char \<Rightarrow> bool" where
  "isxdigit c = (isdigit c \<or> (97 \<le> (of_char (tolower c) :: nat) \<and> (of_char (tolower c) :: nat) \<le> 102))"

definition xdigits_value :: "string \<Rightarrow> nat" where
  "xdigits_value ds =
     foldl (\<lambda>a c. 16 * a + (if isdigit c then of_char c - 48 else of_char (tolower c) - 87)) 0 ds"

text \<open>The number of binary digits of a natural number.\<close>

fun bit_length :: "nat \<Rightarrow> nat" where
  "bit_length n = (if n = 0 then 0 else Suc (bit_length (n div 2)))"

declare bit_length.simps [simp del]

text \<open>
  The integer nearest to \<open>n / d\<close>, the even one of two that are equally near (\<open>n\<close> is
  not negative and \<open>d\<close> is positive).
\<close>

definition round_half_even :: "int \<Rightarrow> int \<Rightarrow> int" where
  "round_half_even n d =
     (let q = n div d; r = n mod d
      in if 2 * r < d then q
         else if d < 2 * r then q + 1
         else if even q then q else q + 1)"

text \<open>The exponent \<open>e\<close> with \<open>2^e \<le> n / d < 2^(e+1)\<close>, for positive \<open>n\<close> and \<open>d\<close>.\<close>

definition binary_exponent :: "int \<Rightarrow> int \<Rightarrow> int" where
  "binary_exponent n d =
     (let g = int (bit_length (nat n)) - int (bit_length (nat d))
      in if (if 0 \<le> g then d * 2 ^ nat g \<le> n else d \<le> n * 2 ^ nat (- g)) then g else g - 1)"

text \<open>
  \<open>n / d\<close> in units of \<open>2^q\<close>: the nearest count of units, whether the count is
  exact, and the number that a count \<open>m\<close> of units is.
\<close>

definition scaled_round :: "int \<Rightarrow> int \<Rightarrow> int \<Rightarrow> int" where
  "scaled_round q n d =
     (if q \<le> 0 then round_half_even (n * 2 ^ nat (- q)) d else round_half_even n (d * 2 ^ nat q))"

definition scaled_exact :: "int \<Rightarrow> int \<Rightarrow> int \<Rightarrow> bool" where
  "scaled_exact q n d =
     (if q \<le> 0 then (n * 2 ^ nat (- q)) mod d = 0 else n mod (d * 2 ^ nat q) = 0)"

definition scale2 :: "int \<Rightarrow> int \<Rightarrow> rat" where
  "scale2 m q = (if 0 \<le> q then of_int (m * 2 ^ nat q) else of_int m / of_int (2 ^ nat (- q)))"

text \<open>
  The double nearest to \<open>n / d\<close>, with the sign given: 53 binary digits, the least
  exponent \<open>-1022\<close> (below it the unit is \<open>2^-1074\<close>), ties to the even neighbour.
  \<open>ERANGE\<close> is reported on overflow, and on a result that is tiny after rounding and
  not exact.
\<close>

definition to_double :: "bool \<Rightarrow> int \<Rightarrow> int \<Rightarrow> error + Price" where
  "to_double neg n d =
     (if n = 0 then Inr (Number 0)
      else
        (let e = binary_exponent n d;
             tiny = (e < - 1022 \<and> \<not> (e = - 1023 \<and> scaled_round (e - 52) n d = 2 ^ 53));
             q = (if e < - 1022 then - 1074 else e - 52);
             m = scaled_round q n d
         in if 1024 \<le> e \<or> (e = 1023 \<and> m = 2 ^ 53) then Inl (out_of_range ''stod'')
            else if tiny \<and> \<not> scaled_exact q n d then Inl (out_of_range ''stod'')
            else Inr (Number (if neg then - scale2 m q else scale2 m q))))"

definition scaled :: "nat \<Rightarrow> nat \<Rightarrow> int \<Rightarrow> int \<times> int" where
  "scaled mantissa base k =
     (if 0 \<le> k then (int mantissa * int base ^ nat k, 1) else (int mantissa, int base ^ nat (- k)))"

definition exponent_part :: "char \<Rightarrow> string \<Rightarrow> int" where
  "exponent_part letter str =
     (case str of
        [] \<Rightarrow> 0
      | c # cs \<Rightarrow>
          if tolower c = letter
          then (let (eneg, rest) = strip_sign cs; ds = takeWhile isdigit rest
                in if ds = [] then 0
                   else if eneg then - int (digits_value ds) else int (digits_value ds))
          else 0)"

definition fraction_part :: "(char \<Rightarrow> bool) \<Rightarrow> string \<Rightarrow> string \<times> string" where
  "fraction_part is_digit str =
     (case str of
        [] \<Rightarrow> ([], [])
      | c # cs \<Rightarrow> if c = CHR ''.'' then (takeWhile is_digit cs, dropWhile is_digit cs)
                  else ([], str))"

definition stod :: "string \<Rightarrow> error + Price" where
  "stod str =
     (let (neg, rest) = strip_sign (dropWhile isspace str);
          ip = takeWhile isdigit rest;
          (fp, after) = fraction_part isdigit (dropWhile isdigit rest);
          hex = drop 2 rest;
          hip = takeWhile isxdigit hex;
          (hfp, hafter) = fraction_part isxdigit (dropWhile isxdigit hex)
      in if starts_with ''inf'' rest then Inr (if neg then MinusInfinity else PlusInfinity)
         else if starts_with ''nan'' rest then Inr NaN
         else if starts_with ''0x'' rest \<and> (hip \<noteq> [] \<or> hfp \<noteq> [])
         then (case scaled (xdigits_value (hip @ hfp)) 2
                      (exponent_part CHR ''p'' hafter - 4 * int (length hfp)) of
                 (n, d) \<Rightarrow> to_double neg n d)
         else if ip = [] \<and> fp = [] then Inl (invalid_argument ''stod'')
         else (case scaled (digits_value (ip @ fp)) 10
                      (exponent_part CHR ''e'' after - int (length fp)) of
                 (n, d) \<Rightarrow> to_double neg n d))"

text \<open>
  \<open>static_cast<Side>(c)\<close> followed by the check of \<open>Order\<close>'s constructor, which throws
  unless the side is \<open>BUY\<close> (the character B) or \<open>SELL\<close> (the character S).
\<close>

definition Order_side :: "char \<Rightarrow> error + Side" where
  "Order_side c =
     (if c = CHR ''B'' then Inr BUY
      else if c = CHR ''S'' then Inr SELL
      else Inl (invalid_argument ''Invalid Order Side''))"

subsection \<open>Crossing\<close>

text \<open>
  The loop over the resting orders of one price level; \<open>_fillBid\<close> and \<open>_fillAsk\<close>
  hold the same text. It yields the incoming order, the queue with the quantities it
  has reduced, the fills and the counter \<open>ordersToPop\<close>. A fill is recorded for the
  resting order only.
\<close>

fun fillQueue :: "Order \<Rightarrow> OrderQueue \<Rightarrow> Order \<times> OrderQueue \<times> Fill list \<times> nat" where
  "fillQueue order [] = (order, [], [], 0)"
| "fillQueue order (restingOrder # rest) =
     (let sharesExecuted = min (qty restingOrder) (qty order);
          order1 = order\<lparr>qty := qty order - sharesExecuted\<rparr>;
          resting1 = restingOrder\<lparr>qty := qty restingOrder - sharesExecuted\<rparr>;
          fills = (if 0 < sharesExecuted
                   then [\<lparr>fill_oid = oid resting1, fill_symbol = symbol resting1,
                          fill_qty = sharesExecuted, fill_px = px resting1\<rparr>]
                   else []);
          ordersToPop = (if qty resting1 = 0 then Suc 0 else 0)
      in if qty order1 = 0 then (order1, resting1 # rest, fills, ordersToPop)
         else (case fillQueue order1 rest of
                 (order2, rest2, fills2, ordersToPop2) \<Rightarrow>
                   (order2, resting1 # rest2, fills @ fills2, ordersToPop + ordersToPop2)))"

text \<open>\<open>for (int i=0; i < ordersToPop; i++) queue.pop_back();\<close>\<close>

primrec pop_back_n :: "nat \<Rightarrow> 'a list \<Rightarrow> 'a list" where
  "pop_back_n 0 queue = queue"
| "pop_back_n (Suc n) queue = pop_back_n n (butlast queue)"

text \<open>
  The price test of the two outer loops: \<open>order.px >= askPrice\<close> for an incoming buy,
  \<open>order.px <= bidPrice\<close> for an incoming sell.
\<close>

definition crosses :: "Order \<Rightarrow> Price \<Rightarrow> bool" where
  "crosses order levelPrice =
     (if side order = BUY then px_le levelPrice (px order) else px_le (px order) levelPrice)"

text \<open>
  The loop over the price levels, in the order in which they are given. It yields the
  incoming order, the levels as the loop body leaves them, the fills and
  \<open>pxLevelsToDrop\<close>.
\<close>

fun fillLevels :: "Order \<Rightarrow> PriceLevels \<Rightarrow> Order \<times> PriceLevels \<times> Fill list \<times> Price list" where
  "fillLevels order [] = (order, [], [], [])"
| "fillLevels order ((levelPrice, orderQueue) # levels) =
     (case (if crosses order levelPrice
            then (case fillQueue order orderQueue of
                    (order1, queue1, fills, ordersToPop) \<Rightarrow>
                      (order1, pop_back_n ordersToPop queue1, fills))
            else (order, orderQueue, [])) of
        (order1, queue1, fills) \<Rightarrow>
          (let pxLevelsToDrop = (if queue1 = [] then [levelPrice] else [])
           in if qty order1 = 0
              then (order1, (levelPrice, queue1) # levels, fills, pxLevelsToDrop)
              else (case fillLevels order1 levels of
                      (order2, levels2, fills2, pxLevelsToDrop2) \<Rightarrow>
                        (order2, (levelPrice, queue1) # levels2, fills @ fills2,
                         pxLevelsToDrop @ pxLevelsToDrop2))))"

text \<open>\<open>for (Price px : pxLevelsToDrop) pxLevels.erase(px);\<close>\<close>

fun erase_all :: "Price list \<Rightarrow> PriceLevels \<Rightarrow> error + PriceLevels" where
  "erase_all [] pxLevels = Inr pxLevels"
| "erase_all (p # pxLevelsToDrop) pxLevels =
     (if weak_order (p # map fst pxLevels)
      then erase_all pxLevelsToDrop (levels_erase p pxLevels)
      else Inl broken_order)"

text \<open>
  \<open>_fillBid\<close> walks the ask levels in ascending price order with
  \<open>for (std::pair<Price, OrderQueue> aPxLevel : askPxLevels)\<close>: each \<open>aPxLevel\<close> is a
  copy of the map's entry, so the queues the loop body reduces and pops are copies and
  are lost; only the erasure of the levels in \<open>pxLevelsToDrop\<close> reaches the book.
\<close>

definition fillBid :: "Order \<Rightarrow> OrderBook \<Rightarrow> error + (Fill list \<times> Order \<times> OrderBook)" where
  "fillBid order book =
     (let book1 = map_subscript (symbol order) no_sides book;
          sides = map_at (symbol order) no_sides book1
      in case fillLevels order (asks sides) of
           (order1, copies, fills, pxLevelsToDrop) \<Rightarrow>
             bind_err (erase_all pxLevelsToDrop (asks sides)) (\<lambda>asks1.
               Inr (fills, order1,
                    map_assign (symbol order) (sides\<lparr>asks := asks1\<rparr>) book1)))"

text \<open>
  \<open>_fillAsk\<close> walks the bid levels from \<open>rbegin()\<close> to \<open>rend()\<close>, in descending price
  order, through the iterator: the queues it reduces and pops are the book's own.
\<close>

definition fillAsk :: "Order \<Rightarrow> OrderBook \<Rightarrow> error + (Fill list \<times> Order \<times> OrderBook)" where
  "fillAsk order book =
     (let book1 = map_subscript (symbol order) no_sides book;
          sides = map_at (symbol order) no_sides book1
      in case fillLevels order (rev (bids sides)) of
           (order1, levels1, fills, pxLevelsToDrop) \<Rightarrow>
             bind_err (erase_all pxLevelsToDrop (rev levels1)) (\<lambda>bids1.
               Inr (fills, order1,
                    map_assign (symbol order) (sides\<lparr>bids := bids1\<rparr>) book1)))"

definition fillOrder :: "Order \<Rightarrow> OrderBook \<Rightarrow> error + (Fill list \<times> Order \<times> OrderBook)" where
  "fillOrder order book = (if side order = BUY then fillBid order book else fillAsk order book)"

subsection \<open>Placing, cancelling, printing\<close>

text \<open>\<open>_placeOrderNewSymbol\<close>: the first level goes into an empty map.\<close>

definition placeOrderNewSymbol :: "Order \<Rightarrow> OrderBook \<Rightarrow> OrderBook" where
  "placeOrderNewSymbol order book =
     (let orderQueue = [order];
          sides = (if side order = BUY
                   then \<lparr>bids = levels_insert (px order) orderQueue [], asks = []\<rparr>
                   else \<lparr>bids = [], asks = levels_insert (px order) orderQueue []\<rparr>)
      in map_insert (symbol order) sides book)"

text \<open>
  \<open>_placeOrderExistingSymbol\<close>. \<open>pxLevels.find(order.px)\<close> and, when it finds a level,
  \<open>pxLevels[order.px]\<close> look the price up among the keys of the side.
\<close>

definition placeOrderExistingSymbol ::
  "Order \<Rightarrow> OrderBook \<Rightarrow> error + (Fill list \<times> Order \<times> OrderBook)" where
  "placeOrderExistingSymbol order book =
     bind_err (fillOrder order book) (\<lambda>filled.
       case filled of
         (fills, order1, book1) \<Rightarrow>
           if qty order1 \<noteq> 0
           then (let book2 = map_subscript (symbol order1) no_sides book1;
                     sides = map_at (symbol order1) no_sides book2;
                     pxLevels = (if side order1 = BUY then bids sides else asks sides);
                     pxLevels1 =
                       (if levels_find (px order1) pxLevels = None
                        then levels_insert (px order1) [order1] pxLevels
                        else levels_assign (px order1)
                               (levels_at (px order1) pxLevels @ [order1]) pxLevels);
                     sides1 = (if side order1 = BUY then sides\<lparr>bids := pxLevels1\<rparr>
                               else sides\<lparr>asks := pxLevels1\<rparr>)
                 in if weak_order (px order1 # map fst pxLevels)
                    then Inr (fills, order1, map_assign (symbol order1) sides1 book2)
                    else Inl broken_order)
           else Inr (fills, order1, book1))"

text \<open>\<open>_validateOrderId\<close> throws when the identifier is a key of the cache.\<close>

definition validateOrderId :: "OrderId \<Rightarrow> OrderCache \<Rightarrow> error + unit" where
  "validateOrderId orderId cache =
     (if list_ex (\<lambda>cachedOrder. fst cachedOrder = orderId) cache
      then Inl (invalid_argument ''Invalid Order ID'')
      else Inr ())"

text \<open>
  \<open>_placeOrder\<close>. The order is cached with the quantity the crossing has left, and only
  when that is not zero. Nothing ever erases an entry of the cache.
\<close>

definition placeOrder :: "Order \<Rightarrow> SimpleCross \<Rightarrow> error + (Fill list \<times> SimpleCross)" where
  "placeOrder order s =
     (case validateOrderId (oid order) (orderCache s) of
        Inl e \<Rightarrow> Inl e
      | Inr u \<Rightarrow>
          bind_err (if map_find (symbol order) (orderBook s) = None
                    then Inr ([], order, placeOrderNewSymbol order (orderBook s))
                    else placeOrderExistingSymbol order (orderBook s)) (\<lambda>placed.
            case placed of
              (fills, order1, book1) \<Rightarrow>
                Inr (fills,
                     \<lparr>orderBook = book1,
                      orderCache = (if qty order1 \<noteq> 0
                                    then map_insert (oid order1) order1 (orderCache s)
                                    else orderCache s)\<rparr>)))"

text \<open>The queue without its first order of the given identifier.\<close>

fun erase_oid :: "OrderId \<Rightarrow> OrderQueue \<Rightarrow> OrderQueue" where
  "erase_oid orderId [] = []"
| "erase_oid orderId (r # rs) = (if oid r = orderId then rs else r # erase_oid orderId rs)"

text \<open>
  \<open>_cancelOrder\<close>. The order is looked up in the cache (\<open>at\<close> throws \<open>out_of_range\<close>,
  caught: the result is \<open>false\<close>). \<open>pxLevels[order.px]\<close> looks the price up among the
  keys of the side and creates an empty queue when no level has it. When the search of
  the queue reaches \<open>end()\<close>, \<open>orderQueue.erase(it)\<close> erases the end iterator of a
  \<open>std::list\<close>: undefined behaviour.
\<close>

definition cancelOrder :: "OrderId \<Rightarrow> SimpleCross \<Rightarrow> error + (bool \<times> SimpleCross)" where
  "cancelOrder orderId s =
     (case map_find orderId (orderCache s) of
        None \<Rightarrow> Inr (False, s)
      | Some order \<Rightarrow>
          (let book1 = map_subscript (symbol order) no_sides (orderBook s);
               sides = map_at (symbol order) no_sides book1;
               pxLevels0 = (if side order = BUY then bids sides else asks sides);
               pxLevels = levels_subscript (px order) pxLevels0;
               orderQueue = levels_at (px order) pxLevels
           in if \<not> weak_order (px order # map fst pxLevels0) then Inl broken_order
              else if \<not> list_ex (\<lambda>r. oid r = orderId) orderQueue
              then Inl (undefined_behaviour ''erase of the end iterator'')
              else (let orderQueue1 = erase_oid orderId orderQueue;
                        pxLevels1 = (if orderQueue1 = [] then levels_erase (px order) pxLevels
                                     else levels_assign (px order) orderQueue1 pxLevels);
                        sides1 = (if side order = BUY then sides\<lparr>bids := pxLevels1\<rparr>
                                  else sides\<lparr>asks := pxLevels1\<rparr>)
                    in Inr (True, s\<lparr>orderBook := map_assign (symbol order) sides1 book1\<rparr>))))"

definition printFills :: "Fill list \<Rightarrow> out_line list" where
  "printFills fills =
     map (\<lambda>fill. FLine (fill_oid fill) (fill_symbol fill) (fill_qty fill) (fill_px fill)) fills"

definition printCancel :: "OrderId \<Rightarrow> bool \<Rightarrow> out_line list" where
  "printCancel orderId cancelled =
     (if cancelled then [XLine orderId] else [ELine orderId ''Order ID not on book''])"

text \<open>
  \<open>_printSortedBook\<close>: for each symbol in key order, the ask levels from \<open>rbegin()\<close> to
  \<open>rend()\<close> and then the bid levels likewise; within a level the queue from front to back.
\<close>

definition level_lines :: "Symbol \<Rightarrow> Side \<Rightarrow> Price \<times> OrderQueue \<Rightarrow> out_line list" where
  "level_lines symb sd pxLevel =
     map (\<lambda>order. PLine (oid order) symb sd (qty order) (fst pxLevel)) (snd pxLevel)"

definition side_lines :: "Symbol \<Rightarrow> Side \<Rightarrow> PriceLevels \<Rightarrow> out_line list" where
  "side_lines symb sd pxLevels = concat (map (level_lines symb sd) (rev pxLevels))"

definition symbol_lines :: "Symbol \<times> Sides \<Rightarrow> out_line list" where
  "symbol_lines symbolSides =
     side_lines (fst symbolSides) SELL (asks (snd symbolSides))
     @ side_lines (fst symbolSides) BUY (bids (snd symbolSides))"

definition printSortedBook :: "SimpleCross \<Rightarrow> out_line list" where
  "printSortedBook s =
     (if orderBook s = [] then [TextLine ''Book empty!'']
      else concat (map symbol_lines (orderBook s)))"

subsection \<open>The entry point\<close>

text \<open>
  \<open>SimpleCross::action\<close>. The result holds the returned \<open>results_t\<close>, the lines written
  to standard output during the call, and the engine afterwards. The function ends with
  \<open>return results_t();\<close>: the returned list is empty on every path.
  \<open>instructions[i]\<close> is an unchecked \<open>std::vector\<close> access, undefined beyond the last
  token, and \<open>front()\<close> of an empty token is undefined. The arguments of the \<open>Order\<close>
  constructor are evaluated in an unspecified order (here left to right) before its body
  checks the side.
\<close>

definition action :: "string \<Rightarrow> SimpleCross \<Rightarrow> error + (string list \<times> out_line list \<times> SimpleCross)" where
  "action line s =
     (let instructions = splitLine line CHR '' ''
      in case instructions of
           [] \<Rightarrow> Inl (undefined_behaviour ''instructions[0] of an empty vector'')
         | first # others \<Rightarrow>
             (case first of
                [] \<Rightarrow> Inr ([], [], s)
              | c # cs \<Rightarrow>
                  if c = CHR ''O'' then
                    (if length instructions < 6
                     then Inl (undefined_behaviour ''instructions[i] beyond the last token'')
                     else if instructions ! 3 = []
                     then Inl (undefined_behaviour ''front() of an empty string'')
                     else
                       bind_err (stoi (instructions ! 1)) (\<lambda>i.
                       bind_err (stoi (instructions ! 4)) (\<lambda>q.
                       bind_err (stod (instructions ! 5)) (\<lambda>p.
                       bind_err (Order_side (hd (instructions ! 3))) (\<lambda>d.
                       bind_err
                         (placeOrder \<lparr>oid = nat (i mod 2 ^ 32), symbol = instructions ! 2,
                                      side = d, qty = nat (q mod 2 ^ 16), px = p\<rparr> s)
                         (\<lambda>placed. Inr ([], printFills (fst placed), snd placed)))))))
                  else if c = CHR ''X'' then
                    (if length instructions < 2
                     then Inl (undefined_behaviour ''instructions[i] beyond the last token'')
                     else
                       bind_err (stoi (instructions ! 1)) (\<lambda>i.
                       bind_err (cancelOrder (nat (i mod 2 ^ 32)) s) (\<lambda>cancelled.
                       Inr ([], printCancel (nat (i mod 2 ^ 32)) (fst cancelled),
                            snd cancelled))))
                  else if c = CHR ''P'' then Inr ([], printSortedBook s, s)
                  else Inr ([], [], s)))"

text \<open>The engine of a fresh \<open>SimpleCross\<close> object.\<close>

definition new_SimpleCross :: SimpleCross where
  "new_SimpleCross = \<lparr>orderBook = [], orderCache = []\<rparr>"

text \<open>
  The loop of \<open>main\<close> over the lines of the file: each line goes through \<open>action\<close>, the
  returned results are printed after what the call has written itself, and an exception
  that leaves \<open>action\<close> ends the run.
\<close>

fun run_lines :: "string list \<Rightarrow> SimpleCross \<Rightarrow> error + (out_line list \<times> SimpleCross)" where
  "run_lines [] s = Inr ([], s)"
| "run_lines (line # lines) s =
     (case action line s of
        Inl e \<Rightarrow> Inl e
      | Inr (results, out, s1) \<Rightarrow>
          (case run_lines lines s1 of
             Inl e \<Rightarrow> Inl e
           | Inr (out2, s2) \<Rightarrow> Inr (out @ map TextLine results @ out2, s2)))"

subsection \<open>Observers and example engines\<close>

text \<open>The total quantity of the fill lines that bear an identifier.\<close>

fun fill_line_qty :: "OrderId \<Rightarrow> out_line \<Rightarrow> nat" where
  "fill_line_qty orderId (FLine i s q p) = (if i = orderId then q else 0)"
| "fill_line_qty orderId other = 0"

definition filled_qty :: "OrderId \<Rightarrow> out_line list \<Rightarrow> nat" where
  "filled_qty orderId out = sum_list (map (fill_line_qty orderId) out)"

text \<open>The open quantity an identifier has in the book: over every queue of every symbol.\<close>

definition queue_open_qty :: "OrderId \<Rightarrow> OrderQueue \<Rightarrow> nat" where
  "queue_open_qty orderId queue = sum_list (map qty (filter (\<lambda>r. oid r = orderId) queue))"

definition levels_open_qty :: "OrderId \<Rightarrow> PriceLevels \<Rightarrow> nat" where
  "levels_open_qty orderId pxLevels =
     sum_list (map (\<lambda>pxLevel. queue_open_qty orderId (snd pxLevel)) pxLevels)"

definition open_qty :: "OrderId \<Rightarrow> SimpleCross \<Rightarrow> nat" where
  "open_qty orderId s =
     sum_list (map (\<lambda>symbolSides. levels_open_qty orderId (bids (snd symbolSides))
                                  + levels_open_qty orderId (asks (snd symbolSides)))
                   (orderBook s))"

text \<open>
  The engine after the first three lines of the example session in the source's header
  comment, and after the fourth.
\<close>

definition session_three :: SimpleCross where
  "session_three =
     \<lparr>orderBook =
        [(''IBM'',
          \<lparr>bids = [(Number 99, [\<lparr>oid = 10001, symbol = ''IBM'', side = BUY, qty = 10, px = Number 99\<rparr>]),
                   (Number 100, [\<lparr>oid = 10000, symbol = ''IBM'', side = BUY, qty = 10, px = Number 100\<rparr>])],
           asks = [(Number 101, [\<lparr>oid = 10002, symbol = ''IBM'', side = SELL, qty = 5, px = Number 101\<rparr>])]\<rparr>)],
      orderCache =
        [(10000, \<lparr>oid = 10000, symbol = ''IBM'', side = BUY, qty = 10, px = Number 100\<rparr>),
         (10001, \<lparr>oid = 10001, symbol = ''IBM'', side = BUY, qty = 10, px = Number 99\<rparr>),
         (10002, \<lparr>oid = 10002, symbol = ''IBM'', side = SELL, qty = 5, px = Number 101\<rparr>)]\<rparr>"

definition session_four :: SimpleCross where
  "session_four =
     \<lparr>orderBook =
        [(''IBM'',
          \<lparr>bids = [(Number 99, [\<lparr>oid = 10001, symbol = ''IBM'', side = BUY, qty = 10, px = Number 99\<rparr>]),
                   (Number 100, [\<lparr>oid = 10000, symbol = ''IBM'', side = BUY, qty = 5, px = Number 100\<rparr>])],
           asks = [(Number 101, [\<lparr>oid = 10002, symbol = ''IBM'', side = SELL, qty = 5, px = Number 101\<rparr>])]\<rparr>)],
      orderCache =
        [(10000, \<lparr>oid = 10000, symbol = ''IBM'', side = BUY, qty = 10, px = Number 100\<rparr>),
         (10001, \<lparr>oid = 10001, symbol = ''IBM'', side = BUY, qty = 10, px = Number 99\<rparr>),
         (10002, \<lparr>oid = 10002, symbol = ''IBM'', side = SELL, qty = 5, px = Number 101\<rparr>)]\<rparr>"

text \<open>The engine with one resting buy order, before and after its cancellation.\<close>

definition one_bid :: SimpleCross where
  "one_bid =
     \<lparr>orderBook =
        [(''IBM'',
          \<lparr>bids = [(Number 100, [\<lparr>oid = 1, symbol = ''IBM'', side = BUY, qty = 10, px = Number 100\<rparr>])],
           asks = []\<rparr>)],
      orderCache = [(1, \<lparr>oid = 1, symbol = ''IBM'', side = BUY, qty = 10, px = Number 100\<rparr>)]\<rparr>"

definition one_bid_cancelled :: SimpleCross where
  "one_bid_cancelled =
     \<lparr>orderBook = [(''IBM'', \<lparr>bids = [], asks = []\<rparr>)],
      orderCache = [(1, \<lparr>oid = 1, symbol = ''IBM'', side = BUY, qty = 10, px = Number 100\<rparr>)]\<rparr>"

text \<open>The engine with one resting sell order of quantity 10 at 100.\<close>

definition one_ask :: SimpleCross where
  "one_ask =
     \<lparr>orderBook =
        [(''IBM'',
          \<lparr>bids = [],
           asks = [(Number 100, [\<lparr>oid = 1, symbol = ''IBM'', side = SELL, qty = 10, px = Number 100\<rparr>])]\<rparr>)],
      orderCache = [(1, \<lparr>oid = 1, symbol = ''IBM'', side = SELL, qty = 10, px = Number 100\<rparr>)]\<rparr>"

text \<open>
  The lines of the example session up to its snapshot, without the second
  \<open>O 10008 IBM S 10 102.00000\<close> (which ends the run, see C6), and the engine they
  leave: two buy orders at 99, one at 100, one sell order at 101 and two at 102.
\<close>

definition session_sides :: Sides where
  "session_sides =
     \<lparr>bids = [(Number 99, [\<lparr>oid = 10001, symbol = ''IBM'', side = BUY, qty = 10, px = Number 99\<rparr>,
                    \<lparr>oid = 10005, symbol = ''IBM'', side = BUY, qty = 10, px = Number 99\<rparr>]),
              (Number 100, [\<lparr>oid = 10006, symbol = ''IBM'', side = BUY, qty = 10, px = Number 100\<rparr>])],
      asks = [(Number 101, [\<lparr>oid = 10007, symbol = ''IBM'', side = SELL, qty = 10, px = Number 101\<rparr>]),
              (Number 102, [\<lparr>oid = 10008, symbol = ''IBM'', side = SELL, qty = 10, px = Number 102\<rparr>,
                     \<lparr>oid = 10009, symbol = ''IBM'', side = SELL, qty = 10, px = Number 102\<rparr>])]\<rparr>"

definition session_book :: SimpleCross where
  "session_book =
     \<lparr>orderBook = [(''IBM'', session_sides)],
      orderCache =
        [(10000, \<lparr>oid = 10000, symbol = ''IBM'', side = BUY, qty = 10, px = Number 100\<rparr>),
         (10001, \<lparr>oid = 10001, symbol = ''IBM'', side = BUY, qty = 10, px = Number 99\<rparr>),
         (10002, \<lparr>oid = 10002, symbol = ''IBM'', side = SELL, qty = 5, px = Number 101\<rparr>),
         (10005, \<lparr>oid = 10005, symbol = ''IBM'', side = BUY, qty = 10, px = Number 99\<rparr>),
         (10006, \<lparr>oid = 10006, symbol = ''IBM'', side = BUY, qty = 10, px = Number 100\<rparr>),
         (10007, \<lparr>oid = 10007, symbol = ''IBM'', side = SELL, qty = 10, px = Number 101\<rparr>),
         (10008, \<lparr>oid = 10008, symbol = ''IBM'', side = SELL, qty = 10, px = Number 102\<rparr>),
         (10009, \<lparr>oid = 10009, symbol = ''IBM'', side = SELL, qty = 10, px = Number 102\<rparr>)]\<rparr>"

definition session_lines :: "string list" where
  "session_lines =
     [''O 10000 IBM B 10 100.00000'', ''O 10001 IBM B 10 99.00000'',
      ''O 10002 IBM S 5 101.00000'', ''O 10003 IBM S 5 100.00000'',
      ''O 10004 IBM S 5 100.00000'', ''X 10002'', ''O 10005 IBM B 10 99.00000'',
      ''O 10006 IBM B 10 100.00000'', ''O 10007 IBM S 10 101.00000'',
      ''O 10008 IBM S 10 102.00000'', ''O 10009 IBM S 10 102.00000'']"

text \<open>
  The engine after a sell order whose price field is \<open>nan\<close> and a buy order at 100:
  both orders rest.
\<close>

definition nan_ask :: SimpleCross where
  "nan_ask =
     \<lparr>orderBook =
        [(''IBM'',
          \<lparr>bids = [(Number 100, [\<lparr>oid = 2, symbol = ''IBM'', side = BUY, qty = 10, px = Number 100\<rparr>])],
           asks = [(NaN, [\<lparr>oid = 1, symbol = ''IBM'', side = SELL, qty = 10, px = NaN\<rparr>])]\<rparr>)],
      orderCache =
        [(1, \<lparr>oid = 1, symbol = ''IBM'', side = SELL, qty = 10, px = NaN\<rparr>),
         (2, \<lparr>oid = 2, symbol = ''IBM'', side = BUY, qty = 10, px = Number 100\<rparr>)]\<rparr>"

subsection \<open>Invariants\<close>

text \<open>
  The keys of a \<open>std::map\<close> are in strictly ascending order: the symbols of the book,
  and the prices of each side by the comparison of doubles.
\<close>

definition ascending :: "('k::linorder \<times> 'v) list \<Rightarrow> bool" where
  "ascending m = sorted_wrt (<) (map fst m)"

definition ascending_prices :: "PriceLevels \<Rightarrow> bool" where
  "ascending_prices pxLevels = sorted_wrt px_less (map fst pxLevels)"

definition ordered_sides :: "Sides \<Rightarrow> bool" where
  "ordered_sides sd = (ascending_prices (bids sd) \<and> ascending_prices (asks sd))"

definition ordered_book :: "OrderBook \<Rightarrow> bool" where
  "ordered_book book = (ascending book \<and> (\<forall>symbolSides \<in> set book. ordered_sides (snd symbolSides)))"

text \<open>One pass of the body of the level loop.\<close>

definition level_step :: "Order \<Rightarrow> Price \<Rightarrow> OrderQueue \<Rightarrow> Order \<times> OrderQueue \<times> Fill list" where
  "level_step order levelPrice orderQueue =
     (if crosses order levelPrice
            then (case fillQueue order orderQueue of
                    (order1, queue1, fills, ordersToPop) \<Rightarrow>
                      (order1, pop_back_n ordersToPop queue1, fills))
            else (order, orderQueue, []))"

text \<open>
  Arrival order: the identifiers of the orders of every queue, from front to back, are
  a subsequence of the identifiers accepted so far, in the order of their acceptance.
\<close>

definition in_arrival_order :: "OrderId list \<Rightarrow> PriceLevels \<Rightarrow> bool" where
  "in_arrival_order accepted pxLevels =
     (\<forall>pxLevel \<in> set pxLevels. subseq (map oid (snd pxLevel)) accepted)"

definition arrival_sides :: "OrderId list \<Rightarrow> Sides \<Rightarrow> bool" where
  "arrival_sides accepted sd =
     (in_arrival_order accepted (bids sd) \<and> in_arrival_order accepted (asks sd))"

definition arrival_book :: "OrderId list \<Rightarrow> OrderBook \<Rightarrow> bool" where
  "arrival_book accepted book =
     (\<forall>symbolSides \<in> set book. arrival_sides accepted (snd symbolSides))"

text \<open>
  The identifier of the order that a line places: the second token of a line whose
  first character is O, read as \<open>action\<close> reads it.
\<close>

definition placed_ids :: "string \<Rightarrow> OrderId list" where
  "placed_ids line =
     (case splitLine line CHR '' '' of
        [] \<Rightarrow> []
      | first # others \<Rightarrow>
          (case others of
             [] \<Rightarrow> []
           | token # rest \<Rightarrow>
               if take 1 first = ''O''
               then (case stoi token of Inl e \<Rightarrow> [] | Inr i \<Rightarrow> [nat (i mod 2 ^ 32)])
               else []))"

text \<open>
  \<open>accepted_run accepted s\<close>: the engine \<open>s\<close> is reached from a fresh one by calls of
  \<open>_placeOrder\<close> and \<open>_cancelOrder\<close> that have returned, and \<open>accepted\<close> lists the
  identifiers of the orders placed on the way, in the order of the calls. Nothing else
  in \<open>action\<close> changes the engine, so the engine that a sequence of lines leaves is
  reached in this way.
\<close>

inductive accepted_run :: "OrderId list \<Rightarrow> SimpleCross \<Rightarrow> bool" where
  fresh: "accepted_run [] new_SimpleCross"
| placed: "accepted_run accepted s \<Longrightarrow> placeOrder order s = Inr (fills, s')
           \<Longrightarrow> accepted_run (accepted @ [oid order]) s'"
| cancelled: "accepted_run accepted s \<Longrightarrow> cancelOrder orderId s = Inr (removed, s')
              \<Longrightarrow> accepted_run accepted s'"

subsection \<open>Reading a snapshot\<close>

text \<open>
  The book entries that a list of written lines holds for one symbol, in the order of
  the lines: identifier, side, open quantity and price. \<open>ask_entries\<close> and
  \<open>bid_entries\<close> are the entries of each side; \<open>queue_entries\<close> are the entries of
  the orders of one queue, from front to back.
\<close>

type_synonym book_entry = "OrderId \<times> Side \<times> Quantity \<times> Price"

fun entry_of :: "Symbol \<Rightarrow> out_line \<Rightarrow> book_entry list" where
  "entry_of symb (PLine i s d q p) = (if s = symb then [(i, d, q, p)] else [])"
| "entry_of symb other = []"

definition entries_of :: "Symbol \<Rightarrow> out_line list \<Rightarrow> book_entry list" where
  "entries_of symb out = concat (map (entry_of symb) out)"

definition entry_side :: "book_entry \<Rightarrow> Side" where
  "entry_side e = fst (snd e)"

definition entry_px :: "book_entry \<Rightarrow> Price" where
  "entry_px e = snd (snd (snd e))"

definition entry_oid :: "book_entry \<Rightarrow> OrderId" where
  "entry_oid e = fst e"

definition ask_entries :: "Symbol \<Rightarrow> out_line list \<Rightarrow> book_entry list" where
  "ask_entries symb out = filter (\<lambda>e. entry_side e = SELL) (entries_of symb out)"

definition bid_entries :: "Symbol \<Rightarrow> out_line list \<Rightarrow> book_entry list" where
  "bid_entries symb out = filter (\<lambda>e. entry_side e = BUY) (entries_of symb out)"

definition queue_entries :: "Side \<Rightarrow> Price \<Rightarrow> OrderQueue \<Rightarrow> book_entry list" where
  "queue_entries d p queue = map (\<lambda>r. (oid r, d, qty r, p)) queue"

definition side_entries :: "Side \<Rightarrow> PriceLevels \<Rightarrow> book_entry list" where
  "side_entries d pxLevels = concat (map (\<lambda>pxLevel. queue_entries d (fst pxLevel) (snd pxLevel)) (rev pxLevels))"

text \<open>
  Prices that do not increase down a list of entries: each entry's price is that of
  every entry above it, or less.
\<close>

definition descending_prices :: "book_entry list \<Rightarrow> bool" where
  "descending_prices entries =
     sorted_wrt (\<lambda>e e'. px_less (entry_px e') (entry_px e) \<or> entry_px e' = entry_px e) entries"

text \<open>
  The snapshot as the specification words it (section 4.4): for each symbol the ask
  levels from the highest price to the lowest, then the bid levels likewise, and within
  a level the most recently accepted order first, that is the queue from back to front.
\<close>

definition spec_level_lines :: "Symbol \<Rightarrow> Side \<Rightarrow> Price \<times> OrderQueue \<Rightarrow> out_line list" where
  "spec_level_lines symb sd pxLevel =
     map (\<lambda>order. PLine (oid order) symb sd (qty order) (fst pxLevel)) (rev (snd pxLevel))"

definition spec_snapshot :: "SimpleCross \<Rightarrow> out_line list" where
  "spec_snapshot s =
     concat (map (\<lambda>symbolSides.
                    concat (map (spec_level_lines (fst symbolSides) SELL)
                                (rev (asks (snd symbolSides))))
                    @ concat (map (spec_level_lines (fst symbolSides) BUY)
                                  (rev (bids (snd symbolSides)))))
                 (orderBook s))"

section \<open>Properties of the model\<close>

subsection \<open>The map operations\<close>

lemma set_map_insert: "set (map_insert k v m) \<subseteq> insert (k, v) (set m)"
  by (auto simp: map_insert_def map_find_def set_insort_key split: option.splits)

lemma set_map_assign: "set (map_assign k v m) \<subseteq> insert (k, v) (set m)"
  by (auto simp: map_assign_def)

lemma map_at_cases: "map_at k d m = d \<or> (k, map_at k d m) \<in> set m"
  by (auto simp: map_at_def map_find_def split: option.splits dest: map_of_SomeD)

lemma ascending_insort:
  "k \<notin> fst ` set m \<Longrightarrow> ascending m \<Longrightarrow> ascending (insort_key fst (k, v) m)"
  unfolding ascending_def
  by (induction m) (auto simp: set_insort_key)

lemma ascending_map_insert: "ascending m \<Longrightarrow> ascending (map_insert k v m)"
proof (cases "map_of m k")
  case None
  assume "ascending m"
  moreover from None have "k \<notin> fst ` set m" by (simp add: map_of_eq_None_iff)
  ultimately show ?thesis using None by (simp add: map_insert_def map_find_def ascending_insort)
next
  case (Some u)
  assume "ascending m"
  with Some show ?thesis by (simp add: map_insert_def map_find_def)
qed

lemma map_fst_map_assign: "map fst (map_assign k v m) = map fst m"
  by (induction m) (auto simp: map_assign_def)

lemma ascending_map_assign: "ascending m \<Longrightarrow> ascending (map_assign k v m)"
  by (simp add: ascending_def map_fst_map_assign)

subsection \<open>The comparison of prices and the price levels\<close>

lemma px_less_irrefl: "\<not> px_less a a"
  by (cases a) simp_all

lemma px_less_trans: "px_less a b \<Longrightarrow> px_less b c \<Longrightarrow> px_less a c"
  by (cases a; cases b; cases c) simp_all

lemma levels_find_None: "levels_find p m = None \<longleftrightarrow> (\<forall>k \<in> fst ` set m. \<not> px_equiv p k)"
  by (auto simp: levels_find_def find_None_iff)

lemma set_levels_put: "set (levels_put p v m) = insert (p, v) (set m)"
  by (induction m) auto

lemma ascending_levels_put:
  "ascending_prices m \<Longrightarrow> levels_find p m = None \<Longrightarrow> ascending_prices (levels_put p v m)"
proof (induction m)
  case Nil
  show ?case by (simp add: ascending_prices_def)
next
  case (Cons kv m)
  from Cons.prems(1) have am: "ascending_prices m"
    and above: "\<forall>k \<in> fst ` set m. px_less (fst kv) k"
    by (auto simp: ascending_prices_def)
  from Cons.prems(2) have ne: "\<not> px_equiv p (fst kv)" and nf: "levels_find p m = None"
    by (auto simp: levels_find_None)
  show ?case
  proof (cases "px_less (fst kv) p")
    case True
    from am nf have "ascending_prices (levels_put p v m)" by (rule Cons.IH)
    with True above show ?thesis
      by (auto simp: ascending_prices_def set_levels_put)
  next
    case False
    with ne have lt: "px_less p (fst kv)" by (simp add: px_equiv_def)
    with above have "\<forall>k \<in> fst ` set m. px_less p k" by (blast intro: px_less_trans)
    with False lt Cons.prems(1) show ?thesis by (auto simp: ascending_prices_def)
  qed
qed

lemma ascending_levels_insert: "ascending_prices m \<Longrightarrow> ascending_prices (levels_insert p v m)"
  by (cases "levels_find p m") (simp_all add: levels_insert_def ascending_levels_put)

lemma ascending_levels_erase: "ascending_prices m \<Longrightarrow> ascending_prices (levels_erase p m)"
  unfolding ascending_prices_def levels_erase_def
  by (induction m) auto

lemma map_fst_levels_assign: "map fst (levels_assign p q m) = map fst m"
  by (induction m) (auto simp: levels_assign_def)

lemma ascending_levels_assign: "ascending_prices m \<Longrightarrow> ascending_prices (levels_assign p q m)"
  by (simp add: ascending_prices_def map_fst_levels_assign)

lemma erase_all_ascending:
  "erase_all ds m = Inr m' \<Longrightarrow> ascending_prices m \<Longrightarrow> ascending_prices m'"
  by (induction ds arbitrary: m) (auto simp: ascending_levels_erase split: if_splits)

lemma queues_levels_insert: "snd ` set (levels_insert p v m) \<subseteq> insert v (snd ` set m)"
  by (auto simp: levels_insert_def set_levels_put split: option.splits)

lemma queues_levels_assign: "snd ` set (levels_assign p q m) \<subseteq> insert q (snd ` set m)"
  by (auto simp: levels_assign_def)

lemma queues_levels_erase: "snd ` set (levels_erase p m) \<subseteq> snd ` set m"
  by (auto simp: levels_erase_def)

lemma erase_all_queues: "erase_all ds m = Inr m' \<Longrightarrow> snd ` set m' \<subseteq> snd ` set m"
proof (induction ds arbitrary: m)
  case Nil
  then show ?case by simp
next
  case (Cons d ds)
  from Cons.prems have "erase_all ds (levels_erase d m) = Inr m'" by (simp split: if_splits)
  then have "snd ` set m' \<subseteq> snd ` set (levels_erase d m)" by (rule Cons.IH)
  with queues_levels_erase [of d m] show ?case by blast
qed

lemma find_in_set: "find P xs = Some x \<Longrightarrow> x \<in> set xs"
  by (induction xs) (auto split: if_splits)

lemma levels_at_cases: "levels_at p m = [] \<or> levels_at p m \<in> snd ` set m"
proof (cases "levels_find p m")
  case None
  then show ?thesis by (simp add: levels_at_def)
next
  case (Some kv)
  then have "kv \<in> set m" unfolding levels_find_def by (rule find_in_set)
  with Some show ?thesis by (simp add: levels_at_def)
qed

subsection \<open>The crossing loops\<close>

lemma fillQueue_same:
  "fillQueue order queue = (order1, queue1, fills, n) \<Longrightarrow>
   px order1 = px order \<and> side order1 = side order \<and> symbol order1 = symbol order
   \<and> oid order1 = oid order \<and> map oid queue1 = map oid queue"
proof (induction queue arbitrary: order order1 queue1 fills n)
  case Nil
  then show ?case by simp
next
  case (Cons r rs)
  show ?case
  proof (cases "qty order - min (qty r) (qty order) = 0")
    case True
    with Cons.prems show ?thesis by (auto simp: Let_def)
  next
    case False
    obtain o2 q2 f2 n2 where rec:
      "fillQueue (order\<lparr>qty := qty order - min (qty r) (qty order)\<rparr>) rs = (o2, q2, f2, n2)"
      by (metis prod_cases4)
    from Cons.IH [OF rec] Cons.prems False rec show ?thesis
      by (auto simp: Let_def)
  qed
qed

lemma pop_back_n_take: "pop_back_n n queue = take (length queue - n) queue"
proof (induction n arbitrary: queue)
  case 0
  show ?case by simp
next
  case (Suc n)
  show ?case by (simp add: Suc.IH butlast_conv_take)
qed

lemma level_step_same:
  "level_step order p q = (order1, queue1, fills) \<Longrightarrow>
   px order1 = px order \<and> side order1 = side order \<and> symbol order1 = symbol order
   \<and> oid order1 = oid order"
  by (auto simp: level_step_def split: if_splits prod.splits dest: fillQueue_same)

lemma level_step_ids:
  "level_step order p queue = (order1, queue1, fills) \<Longrightarrow>
   subseq (map oid queue1) (map oid queue)"
proof (cases "crosses order p")
  case False
  assume "level_step order p queue = (order1, queue1, fills)"
  with False show ?thesis by (simp add: level_step_def)
next
  case True
  assume a: "level_step order p queue = (order1, queue1, fills)"
  obtain o2 q2 f2 n2 where fq: "fillQueue order queue = (o2, q2, f2, n2)" by (metis prod_cases4)
  with a True have "queue1 = take (length q2 - n2) q2"
    by (simp add: level_step_def pop_back_n_take)
  then have "map oid queue1 = take (length q2 - n2) (map oid q2)" by (simp add: take_map)
  also have "map oid q2 = map oid queue" using fillQueue_same [OF fq] by simp
  finally have "prefix (map oid queue1) (map oid queue)" by (simp add: take_is_prefix)
  then show ?thesis by (rule prefix_imp_subseq)
qed

lemma fillLevels_Cons:
  "fillLevels order ((p, q) # levels) =
     (case level_step order p q of
        (order1, queue1, fills) \<Rightarrow>
          if qty order1 = 0
          then (order1, (p, queue1) # levels, fills, if queue1 = [] then [p] else [])
          else (case fillLevels order1 levels of
                  (order2, levels2, fills2, drops2) \<Rightarrow>
                    (order2, (p, queue1) # levels2, fills @ fills2,
                     (if queue1 = [] then [p] else []) @ drops2)))"
  by (simp add: level_step_def Let_def split: prod.splits)

lemma fillLevels_same:
  "fillLevels order levels = (order1, levels1, fills, drops) \<Longrightarrow>
   px order1 = px order \<and> side order1 = side order \<and> symbol order1 = symbol order
   \<and> oid order1 = oid order \<and> map fst levels1 = map fst levels"
proof (induction levels arbitrary: order order1 levels1 fills drops)
  case Nil
  then show ?case by simp
next
  case (Cons pq levels)
  obtain p q where pq: "pq = (p, q)" by (cases pq)
  obtain o1 q1 f1 where st: "level_step order p q = (o1, q1, f1)" by (metis prod_cases3)
  note same = level_step_same [OF st]
  show ?case
  proof (cases "qty o1 = 0")
    case True
    with Cons.prems pq st same show ?thesis
      by (auto simp: fillLevels_Cons simp del: fillLevels.simps)
  next
    case False
    obtain o2 l2 f2 d2 where rec: "fillLevels o1 levels = (o2, l2, f2, d2)" by (metis prod_cases4)
    from Cons.IH [OF rec] Cons.prems pq st same False rec show ?thesis
      by (auto simp: fillLevels_Cons simp del: fillLevels.simps)
  qed
qed

subsection \<open>The keys stay in ascending order\<close>

lemma ordered_no_sides: "ordered_sides no_sides"
  by (simp add: ordered_sides_def no_sides_def ascending_prices_def)

lemma ordered_book_assign:
  "ordered_book m \<Longrightarrow> ordered_sides v \<Longrightarrow> ordered_book (map_assign k v m)"
  using set_map_assign [of k v m] by (auto simp: ordered_book_def ascending_map_assign)

lemma ordered_book_insert:
  "ordered_book m \<Longrightarrow> ordered_sides v \<Longrightarrow> ordered_book (map_insert k v m)"
  using set_map_insert [of k v m] by (auto simp: ordered_book_def ascending_map_insert)

lemma ordered_map_at: "ordered_book m \<Longrightarrow> ordered_sides (map_at k no_sides m)"
  using map_at_cases [of k no_sides m] ordered_no_sides by (auto simp: ordered_book_def)

subsection \<open>The queues stay in arrival order\<close>

lemma in_arrival_order_later:
  "in_arrival_order accepted m \<Longrightarrow> in_arrival_order (accepted @ later) m"
  by (auto simp: in_arrival_order_def intro: subseq_rev_drop_many)

lemma arrival_sides_later:
  "arrival_sides accepted sd \<Longrightarrow> arrival_sides (accepted @ later) sd"
  by (simp add: arrival_sides_def in_arrival_order_later)

lemma arrival_book_later:
  "arrival_book accepted book \<Longrightarrow> arrival_book (accepted @ later) book"
  by (simp add: arrival_book_def arrival_sides_later)

lemma in_arrival_order_queues:
  "in_arrival_order accepted m \<longleftrightarrow> (\<forall>queue \<in> snd ` set m. subseq (map oid queue) accepted)"
  by (auto simp: in_arrival_order_def)

lemma in_arrival_order_subset:
  "in_arrival_order accepted m \<Longrightarrow> snd ` set m' \<subseteq> snd ` set m \<Longrightarrow> in_arrival_order accepted m'"
  unfolding in_arrival_order_queues by blast

lemma in_arrival_order_added:
  "in_arrival_order accepted m \<Longrightarrow> subseq (map oid queue) accepted \<Longrightarrow>
   snd ` set m' \<subseteq> insert queue (snd ` set m) \<Longrightarrow> in_arrival_order accepted m'"
  unfolding in_arrival_order_queues by blast

lemma fillLevels_arrival:
  "fillLevels order levels = (order1, levels1, fills, drops) \<Longrightarrow>
   in_arrival_order accepted levels \<Longrightarrow> in_arrival_order accepted levels1"
proof (induction levels arbitrary: order order1 levels1 fills drops)
  case Nil
  then show ?case by simp
next
  case (Cons pq levels)
  obtain p q where pq: "pq = (p, q)" by (cases pq)
  obtain o1 q1 f1 where st: "level_step order p q = (o1, q1, f1)" by (metis prod_cases3)
  from Cons.prems(2) pq have q: "subseq (map oid q) accepted"
    and rest: "in_arrival_order accepted levels"
    by (simp_all add: in_arrival_order_def)
  from level_step_ids [OF st] q have q1: "subseq (map oid q1) accepted"
    by (rule subseq_order.trans)
  show ?case
  proof (cases "qty o1 = 0")
    case True
    with Cons.prems(1) pq st have "levels1 = (p, q1) # levels"
      by (auto simp: fillLevels_Cons simp del: fillLevels.simps)
    with q1 rest show ?thesis by (simp add: in_arrival_order_def)
  next
    case False
    obtain o2 l2 f2 d2 where rec: "fillLevels o1 levels = (o2, l2, f2, d2)" by (metis prod_cases4)
    with Cons.prems(1) pq st False have "levels1 = (p, q1) # l2"
      by (auto simp: fillLevels_Cons simp del: fillLevels.simps)
    with q1 Cons.IH [OF rec rest] show ?thesis by (simp add: in_arrival_order_def)
  qed
qed

lemma arrival_no_sides: "arrival_sides accepted no_sides"
  by (simp add: arrival_sides_def in_arrival_order_def no_sides_def)

lemma arrival_book_assign:
  "arrival_book accepted m \<Longrightarrow> arrival_sides accepted v \<Longrightarrow> arrival_book accepted (map_assign k v m)"
  using set_map_assign [of k v m] by (auto simp: arrival_book_def)

lemma arrival_book_insert:
  "arrival_book accepted m \<Longrightarrow> arrival_sides accepted v \<Longrightarrow> arrival_book accepted (map_insert k v m)"
  using set_map_insert [of k v m] by (auto simp: arrival_book_def)

lemma arrival_map_at: "arrival_book accepted m \<Longrightarrow> arrival_sides accepted (map_at k no_sides m)"
  using map_at_cases [of k no_sides m] arrival_no_sides [of accepted]
  by (auto simp: arrival_book_def)

lemma levels_at_arrival:
  "in_arrival_order accepted m \<Longrightarrow> subseq (map oid (levels_at p m)) accepted"
  using levels_at_cases [of p m] by (auto simp: in_arrival_order_def)

lemma erase_oid_ids: "subseq (map oid (erase_oid orderId queue)) (map oid queue)"
  by (induction queue) auto

subsection \<open>Both invariants through the engine\<close>

lemma fillBid_result:
  assumes "fillBid order book = Inr (fills, order1, book1)"
  shows "oid order1 = oid order"
    and "ordered_book book \<Longrightarrow> ordered_book book1"
    and "arrival_book accepted book \<Longrightarrow> arrival_book accepted book1"
proof -
  define book0 where "book0 = map_insert (symbol order) no_sides book"
  define sides where "sides = map_at (symbol order) no_sides book0"
  obtain o1 copies fs drops where fl: "fillLevels order (asks sides) = (o1, copies, fs, drops)"
    by (metis prod_cases4)
  from assms fl obtain asks1 where ea: "erase_all drops (asks sides) = Inr asks1"
    and res: "order1 = o1" "book1 = map_assign (symbol order) (sides\<lparr>asks := asks1\<rparr>) book0"
    by (auto simp: fillBid_def bind_err_def map_subscript_def book0_def sides_def Let_def
        split: sum.splits)
  from fillLevels_same [OF fl] res show "oid order1 = oid order" by simp
  show "ordered_book book1" if "ordered_book book"
  proof -
    have ob0: "ordered_book book0"
      unfolding book0_def using that ordered_no_sides by (rule ordered_book_insert)
    then have "ordered_sides sides" unfolding sides_def by (rule ordered_map_at)
    with ea have "ordered_sides (sides\<lparr>asks := asks1\<rparr>)"
      by (auto simp: ordered_sides_def dest: erase_all_ascending)
    with ob0 show ?thesis unfolding res by (rule ordered_book_assign)
  qed
  show "arrival_book accepted book1" if "arrival_book accepted book"
  proof -
    have ab0: "arrival_book accepted book0"
      unfolding book0_def using that arrival_no_sides by (rule arrival_book_insert)
    then have "arrival_sides accepted sides" unfolding sides_def by (rule arrival_map_at)
    then have "arrival_sides accepted (sides\<lparr>asks := asks1\<rparr>)"
      using erase_all_queues [OF ea]
      by (auto simp: arrival_sides_def intro: in_arrival_order_subset)
    with ab0 show ?thesis unfolding res by (rule arrival_book_assign)
  qed
qed

lemma fillAsk_result:
  assumes "fillAsk order book = Inr (fills, order1, book1)"
  shows "oid order1 = oid order"
    and "ordered_book book \<Longrightarrow> ordered_book book1"
    and "arrival_book accepted book \<Longrightarrow> arrival_book accepted book1"
proof -
  define book0 where "book0 = map_insert (symbol order) no_sides book"
  define sides where "sides = map_at (symbol order) no_sides book0"
  obtain o1 levels1 fs drops where
    fl: "fillLevels order (rev (bids sides)) = (o1, levels1, fs, drops)"
    by (metis prod_cases4)
  from assms fl obtain bids1 where ea: "erase_all drops (rev levels1) = Inr bids1"
    and res: "order1 = o1" "book1 = map_assign (symbol order) (sides\<lparr>bids := bids1\<rparr>) book0"
    by (auto simp: fillAsk_def bind_err_def map_subscript_def book0_def sides_def Let_def
        split: sum.splits)
  from fillLevels_same [OF fl] res show "oid order1 = oid order" by simp
  show "ordered_book book1" if "ordered_book book"
  proof -
    have ob0: "ordered_book book0"
      unfolding book0_def using that ordered_no_sides by (rule ordered_book_insert)
    then have os: "ordered_sides sides" unfolding sides_def by (rule ordered_map_at)
    from fillLevels_same [OF fl] have "map fst levels1 = rev (map fst (bids sides))"
      by (simp add: rev_map)
    then have "rev (map fst levels1) = map fst (bids sides)" by simp
    then have "map fst (rev levels1) = map fst (bids sides)" by (simp only: rev_map)
    with os have "ascending_prices (rev levels1)"
      by (simp add: ordered_sides_def ascending_prices_def)
    with ea have "ascending_prices bids1" by (rule erase_all_ascending)
    with os have "ordered_sides (sides\<lparr>bids := bids1\<rparr>)" by (simp add: ordered_sides_def)
    with ob0 show ?thesis unfolding res by (rule ordered_book_assign)
  qed
  show "arrival_book accepted book1" if "arrival_book accepted book"
  proof -
    have ab0: "arrival_book accepted book0"
      unfolding book0_def using that arrival_no_sides by (rule arrival_book_insert)
    then have as: "arrival_sides accepted sides" unfolding sides_def by (rule arrival_map_at)
    then have "in_arrival_order accepted (rev (bids sides))"
      by (simp add: arrival_sides_def in_arrival_order_def)
    with fl have "in_arrival_order accepted levels1" by (rule fillLevels_arrival)
    then have "in_arrival_order accepted (rev levels1)" by (simp add: in_arrival_order_def)
    then have "in_arrival_order accepted bids1"
      using erase_all_queues [OF ea] by (rule in_arrival_order_subset)
    with as have "arrival_sides accepted (sides\<lparr>bids := bids1\<rparr>)"
      by (simp add: arrival_sides_def)
    with ab0 show ?thesis unfolding res by (rule arrival_book_assign)
  qed
qed

lemma rest_ascending:
  "ascending_prices pxLevels \<Longrightarrow>
   ascending_prices (if levels_find p pxLevels = None then levels_insert p [r] pxLevels
                     else levels_assign p (levels_at p pxLevels @ [r]) pxLevels)"
  by (simp add: ascending_levels_insert ascending_levels_assign)

lemma rest_arrival:
  assumes "in_arrival_order accepted pxLevels"
  shows "in_arrival_order (accepted @ [oid r])
           (if levels_find p pxLevels = None then levels_insert p [r] pxLevels
            else levels_assign p (levels_at p pxLevels @ [r]) pxLevels)"
proof -
  from assms have later: "in_arrival_order (accepted @ [oid r]) pxLevels"
    by (rule in_arrival_order_later)
  show ?thesis
  proof (cases "levels_find p pxLevels = None")
    case True
    have "subseq (map oid [r]) (accepted @ [oid r])"
      by (simp add: subseq_singleton_left)
    with later have "in_arrival_order (accepted @ [oid r]) (levels_insert p [r] pxLevels)"
      using queues_levels_insert by (rule in_arrival_order_added)
    with True show ?thesis by simp
  next
    case False
    from assms have "subseq (map oid (levels_at p pxLevels)) accepted"
      by (rule levels_at_arrival)
    then have "subseq (map oid (levels_at p pxLevels @ [r])) (accepted @ [oid r])"
      by (simp add: list_emb_append_mono)
    with later have "in_arrival_order (accepted @ [oid r])
                       (levels_assign p (levels_at p pxLevels @ [r]) pxLevels)"
      using queues_levels_assign by (rule in_arrival_order_added)
    then show ?thesis by (simp only: False if_False)
  qed
qed

lemma placeOrderExistingSymbol_result:
  assumes "placeOrderExistingSymbol order book = Inr (fills, order1, book')"
  shows "ordered_book book \<Longrightarrow> ordered_book book'"
    and "arrival_book accepted book \<Longrightarrow> arrival_book (accepted @ [oid order]) book'"
proof -
  from assms obtain fs o1 book1 where fo: "fillOrder order book = Inr (fs, o1, book1)"
    by (cases "fillOrder order book")
       (auto simp: placeOrderExistingSymbol_def bind_err_def)
  have same: "oid o1 = oid order"
    using fo fillBid_result(1) [of order book fs o1 book1]
      fillAsk_result(1) [of order book fs o1 book1]
    by (auto simp: fillOrder_def split: if_splits)
  have ob1: "ordered_book book1" if "ordered_book book"
    using that fo fillBid_result(2) [of order book fs o1 book1]
      fillAsk_result(2) [of order book fs o1 book1]
    by (auto simp: fillOrder_def split: if_splits)
  have ab1: "arrival_book accepted book1" if "arrival_book accepted book"
    using that fo fillBid_result(3) [of order book fs o1 book1 accepted]
      fillAsk_result(3) [of order book fs o1 book1 accepted]
    by (auto simp: fillOrder_def split: if_splits)
  define book2 where "book2 = map_insert (symbol o1) no_sides book1"
  define sides where "sides = map_at (symbol o1) no_sides book2"
  define pxLevels where "pxLevels = (if side o1 = BUY then bids sides else asks sides)"
  define pxLevels1 where "pxLevels1 =
     (if levels_find (px o1) pxLevels = None then levels_insert (px o1) [o1] pxLevels
      else levels_assign (px o1) (levels_at (px o1) pxLevels @ [o1]) pxLevels)"
  define sides1 where "sides1 = (if side o1 = BUY then sides\<lparr>bids := pxLevels1\<rparr>
                            else sides\<lparr>asks := pxLevels1\<rparr>)"
  have unfolded: "placeOrderExistingSymbol order book
        = (if qty o1 \<noteq> 0
           then (if weak_order (px o1 # map fst pxLevels)
                 then Inr (fs, o1, map_assign (symbol o1) sides1 book2)
                 else Inl broken_order)
           else Inr (fs, o1, book1))"
    unfolding placeOrderExistingSymbol_def fo sides1_def pxLevels1_def pxLevels_def sides_def
      book2_def map_subscript_def
    by (simp add: Let_def bind_err_def)
  show "ordered_book book'" if ob: "ordered_book book"
  proof (cases "qty o1 = 0")
    case True
    with assms unfolded have "book' = book1" by simp
    with ob1 [OF ob] show ?thesis by simp
  next
    case False
    with assms unfolded have res: "book' = map_assign (symbol o1) sides1 book2"
      by (auto split: if_splits)
    have ob2: "ordered_book book2"
      unfolding book2_def using ob1 [OF ob] ordered_no_sides by (rule ordered_book_insert)
    then have os: "ordered_sides sides" unfolding sides_def by (rule ordered_map_at)
    then have "ascending_prices pxLevels" by (simp add: pxLevels_def ordered_sides_def)
    then have "ascending_prices pxLevels1" unfolding pxLevels1_def by (rule rest_ascending)
    with os have "ordered_sides sides1" by (simp add: sides1_def ordered_sides_def)
    with ob2 show ?thesis unfolding res by (rule ordered_book_assign)
  qed
  show "arrival_book (accepted @ [oid order]) book'" if ab: "arrival_book accepted book"
  proof (cases "qty o1 = 0")
    case True
    with assms unfolded have "book' = book1" by simp
    with ab1 [OF ab] show ?thesis by (simp add: arrival_book_later)
  next
    case False
    with assms unfolded have res: "book' = map_assign (symbol o1) sides1 book2"
      by (auto split: if_splits)
    have ab2: "arrival_book accepted book2"
      unfolding book2_def using ab1 [OF ab] arrival_no_sides by (rule arrival_book_insert)
    then have as: "arrival_sides accepted sides" unfolding sides_def by (rule arrival_map_at)
    then have "in_arrival_order accepted pxLevels" by (simp add: pxLevels_def arrival_sides_def)
    then have "in_arrival_order (accepted @ [oid o1]) pxLevels1"
      unfolding pxLevels1_def by (rule rest_arrival)
    moreover from as have "arrival_sides (accepted @ [oid o1]) sides"
      by (rule arrival_sides_later)
    ultimately have "arrival_sides (accepted @ [oid o1]) sides1"
      by (simp add: sides1_def arrival_sides_def)
    moreover from ab2 have "arrival_book (accepted @ [oid o1]) book2"
      by (rule arrival_book_later)
    ultimately have "arrival_book (accepted @ [oid o1]) (map_assign (symbol o1) sides1 book2)"
      by (simp add: arrival_book_assign)
    with res same show ?thesis by simp
  qed
qed

lemma placeOrderNewSymbol_ordered:
  "ordered_book book \<Longrightarrow> ordered_book (placeOrderNewSymbol order book)"
  unfolding placeOrderNewSymbol_def Let_def
  by (rule ordered_book_insert)
     (auto simp: ordered_sides_def ascending_prices_def levels_insert_def levels_find_def)

lemma placeOrderNewSymbol_arrival:
  assumes "arrival_book accepted book"
  shows "arrival_book (accepted @ [oid order]) (placeOrderNewSymbol order book)"
proof -
  from assms have "arrival_book (accepted @ [oid order]) book" by (rule arrival_book_later)
  then show ?thesis
    unfolding placeOrderNewSymbol_def Let_def
    by (rule arrival_book_insert)
       (auto simp: arrival_sides_def in_arrival_order_def levels_insert_def levels_find_def)
qed

lemma placeOrder_result:
  assumes "placeOrder order s = Inr (fills, s')"
  shows "ordered_book (orderBook s) \<Longrightarrow> ordered_book (orderBook s')"
    and "arrival_book accepted (orderBook s)
         \<Longrightarrow> arrival_book (accepted @ [oid order]) (orderBook s')"
proof -
  have "orderBook s' = placeOrderNewSymbol order (orderBook s)
        \<or> (\<exists>fs o1. placeOrderExistingSymbol order (orderBook s) = Inr (fs, o1, orderBook s'))"
    using assms
    by (auto simp: placeOrder_def bind_err_def split: sum.splits if_splits)
  then show "ordered_book (orderBook s) \<Longrightarrow> ordered_book (orderBook s')"
    and "arrival_book accepted (orderBook s)
         \<Longrightarrow> arrival_book (accepted @ [oid order]) (orderBook s')"
    by (auto simp: placeOrderNewSymbol_ordered placeOrderNewSymbol_arrival
        dest: placeOrderExistingSymbol_result)
qed

lemma cancelOrder_result:
  assumes "cancelOrder orderId s = Inr (removed, s')"
  shows "ordered_book (orderBook s) \<Longrightarrow> ordered_book (orderBook s')"
    and "arrival_book accepted (orderBook s) \<Longrightarrow> arrival_book accepted (orderBook s')"
proof -
  show "ordered_book (orderBook s')" if ob: "ordered_book (orderBook s)"
  proof (cases "map_find orderId (orderCache s)")
    case None
    with assms ob show ?thesis by (simp add: cancelOrder_def)
  next
    case (Some order)
    define book1 where "book1 = map_insert (symbol order) no_sides (orderBook s)"
    define sides where "sides = map_at (symbol order) no_sides book1"
    define levels0 where "levels0 = (if side order = BUY then bids sides else asks sides)"
    define pxLevels where "pxLevels = levels_insert (px order) [] levels0"
    define orderQueue where "orderQueue = levels_at (px order) pxLevels"
    define pxLevels1 where "pxLevels1 =
       (if erase_oid orderId orderQueue = [] then levels_erase (px order) pxLevels
        else levels_assign (px order) (erase_oid orderId orderQueue) pxLevels)"
    define sides1 where "sides1 = (if side order = BUY then sides\<lparr>bids := pxLevels1\<rparr>
                                    else sides\<lparr>asks := pxLevels1\<rparr>)"
    from assms Some have res: "orderBook s' = map_assign (symbol order) sides1 book1"
      by (auto simp: cancelOrder_def map_subscript_def levels_subscript_def Let_def book1_def
          sides_def levels0_def pxLevels_def orderQueue_def pxLevels1_def sides1_def
          split: if_splits)
    have ob1: "ordered_book book1"
      unfolding book1_def using ob ordered_no_sides by (rule ordered_book_insert)
    then have os: "ordered_sides sides" unfolding sides_def by (rule ordered_map_at)
    then have "ascending_prices levels0" by (simp add: levels0_def ordered_sides_def)
    then have "ascending_prices pxLevels1"
      by (simp add: pxLevels1_def pxLevels_def ascending_levels_insert ascending_levels_erase
          ascending_levels_assign)
    with os have "ordered_sides sides1" by (simp add: sides1_def ordered_sides_def)
    with ob1 show ?thesis unfolding res by (rule ordered_book_assign)
  qed
  show "arrival_book accepted (orderBook s')" if ab: "arrival_book accepted (orderBook s)"
  proof (cases "map_find orderId (orderCache s)")
    case None
    with assms ab show ?thesis by (simp add: cancelOrder_def)
  next
    case (Some order)
    define book1 where "book1 = map_insert (symbol order) no_sides (orderBook s)"
    define sides where "sides = map_at (symbol order) no_sides book1"
    define levels0 where "levels0 = (if side order = BUY then bids sides else asks sides)"
    define pxLevels where "pxLevels = levels_insert (px order) [] levels0"
    define orderQueue where "orderQueue = levels_at (px order) pxLevels"
    define pxLevels1 where "pxLevels1 =
       (if erase_oid orderId orderQueue = [] then levels_erase (px order) pxLevels
        else levels_assign (px order) (erase_oid orderId orderQueue) pxLevels)"
    define sides1 where "sides1 = (if side order = BUY then sides\<lparr>bids := pxLevels1\<rparr>
                                    else sides\<lparr>asks := pxLevels1\<rparr>)"
    from assms Some have res: "orderBook s' = map_assign (symbol order) sides1 book1"
      by (auto simp: cancelOrder_def map_subscript_def levels_subscript_def Let_def book1_def
          sides_def levels0_def pxLevels_def orderQueue_def pxLevels1_def sides1_def
          split: if_splits)
    have ab1: "arrival_book accepted book1"
      unfolding book1_def using ab arrival_no_sides by (rule arrival_book_insert)
    then have as: "arrival_sides accepted sides" unfolding sides_def by (rule arrival_map_at)
    then have "in_arrival_order accepted levels0" by (simp add: levels0_def arrival_sides_def)
    moreover have "subseq (map oid []) accepted" by simp
    ultimately have px: "in_arrival_order accepted pxLevels"
      unfolding pxLevels_def using queues_levels_insert by (rule in_arrival_order_added)
    then have "subseq (map oid orderQueue) accepted"
      unfolding orderQueue_def by (rule levels_at_arrival)
    with erase_oid_ids have q1: "subseq (map oid (erase_oid orderId orderQueue)) accepted"
      by (rule subseq_order.trans)
    have "in_arrival_order accepted pxLevels1"
    proof (cases "erase_oid orderId orderQueue = []")
      case True
      with px show ?thesis
        using queues_levels_erase [of "px order" pxLevels]
        by (auto simp: pxLevels1_def intro: in_arrival_order_subset)
    next
      case False
      from px q1 queues_levels_assign
      have "in_arrival_order accepted
              (levels_assign (px order) (erase_oid orderId orderQueue) pxLevels)"
        by (rule in_arrival_order_added)
      with False show ?thesis by (simp add: pxLevels1_def)
    qed
    with as have "arrival_sides accepted sides1" by (simp add: sides1_def arrival_sides_def)
    with ab1 show ?thesis unfolding res by (rule arrival_book_assign)
  qed
qed

lemma accepted_run_ordered: "accepted_run accepted s \<Longrightarrow> ordered_book (orderBook s)"
proof (induction rule: accepted_run.induct)
  case fresh
  show ?case by (simp add: new_SimpleCross_def ordered_book_def ascending_def)
next
  case (placed accepted s order fills s')
  from placed.hyps(2) placed.IH show ?case by (rule placeOrder_result(1))
next
  case (cancelled accepted s orderId removed s')
  from cancelled.hyps(2) cancelled.IH show ?case by (rule cancelOrder_result(1))
qed

lemma accepted_run_arrival: "accepted_run accepted s \<Longrightarrow> arrival_book accepted (orderBook s)"
proof (induction rule: accepted_run.induct)
  case fresh
  show ?case by (simp add: new_SimpleCross_def arrival_book_def)
next
  case (placed accepted s order fills s')
  from placed.hyps(2) placed.IH show ?case by (rule placeOrder_result(2))
next
  case (cancelled accepted s orderId removed s')
  from cancelled.hyps(2) cancelled.IH show ?case by (rule cancelOrder_result(2))
qed

text \<open>A sequence of lines that \<open>action\<close> completes is such a run.\<close>

lemma action_engine_ids:
  assumes "action line s = Inr (results, out, s')"
  shows "(s' = s \<and> placed_ids line = [])
         \<or> (\<exists>order fills. placeOrder order s = Inr (fills, s') \<and> placed_ids line = [oid order])
         \<or> (\<exists>orderId removed. cancelOrder orderId s = Inr (removed, s') \<and> placed_ids line = [])"
  using assms
  by (auto simp: action_def placed_ids_def bind_err_def Let_def
      split: list.splits if_splits sum.splits)
     (intro exI conjI, assumption, simp)

lemma action_accepted:
  assumes "accepted_run accepted s" and "action line s = Inr (results, out, s')"
  shows "accepted_run (accepted @ placed_ids line) s'"
  using action_engine_ids [OF assms(2)] assms(1)
  by (auto intro: accepted_run.placed accepted_run.cancelled)

lemma run_lines_accepted:
  "run_lines lines s = Inr (out, s') \<Longrightarrow> accepted_run accepted s
   \<Longrightarrow> accepted_run (accepted @ concat (map placed_ids lines)) s'"
proof (induction lines arbitrary: s out accepted)
  case Nil
  then show ?case by simp
next
  case (Cons line lines)
  from Cons.prems(1) obtain results out1 s1 out2 where
    a: "action line s = Inr (results, out1, s1)" and r: "run_lines lines s1 = Inr (out2, s')"
    by (auto split: sum.splits)
  from Cons.prems(2) a have "accepted_run (accepted @ placed_ids line) s1"
    by (rule action_accepted)
  with r have "accepted_run ((accepted @ placed_ids line) @ concat (map placed_ids lines)) s'"
    by (rule Cons.IH)
  then show ?case by simp
qed

subsection \<open>The entries of a snapshot\<close>

lemma ascending_distinct: "ascending m \<Longrightarrow> distinct (map fst m)"
  by (simp add: ascending_def strict_sorted_iff)

lemma ascending_prices_distinct: "ascending_prices m \<Longrightarrow> distinct (map fst m)"
  unfolding ascending_prices_def
  by (induction m) (auto simp: px_less_irrefl)

lemma concat_single_key:
  "distinct (map fst m) \<Longrightarrow> (k, v) \<in> set m \<Longrightarrow>
   concat (map (\<lambda>kv. if fst kv = k then f kv else []) m) = f (k, v)"
proof (induction m)
  case Nil
  then show ?case by simp
next
  case (Cons kv m)
  show ?case
  proof (cases "kv = (k, v)")
    case True
    from Cons.prems(1) True have "k \<notin> fst ` set m" by simp
    then have "concat (map (\<lambda>kv. if fst kv = k then f kv else []) m) = []"
      by (induction m) auto
    with True show ?thesis by simp
  next
    case False
    with Cons.prems have in_m: "(k, v) \<in> set m" by simp
    then have "k \<in> fst ` set m" by (rule rev_image_eqI) simp
    with Cons.prems(1) have "fst kv \<noteq> k" by auto
    with Cons.IH Cons.prems(1) in_m show ?thesis by simp
  qed
qed

lemma entries_of_Nil: "entries_of symb [] = []"
  by (simp add: entries_of_def)

lemma entries_of_append: "entries_of symb (xs @ ys) = entries_of symb xs @ entries_of symb ys"
  by (simp add: entries_of_def)

lemma entries_of_concat: "entries_of symb (concat xss) = concat (map (entries_of symb) xss)"
  by (induction xss) (simp_all add: entries_of_def)

lemma entries_of_queue:
  "entries_of symb (map (\<lambda>r. PLine (oid r) symb' d (qty r) p) queue)
   = (if symb' = symb then map (\<lambda>r. (oid r, d, qty r, p)) queue else [])"
  by (induction queue) (auto simp: entries_of_def)

lemma entries_of_level_lines:
  "entries_of symb (level_lines symb' d pxLevel)
   = (if symb' = symb then queue_entries d (fst pxLevel) (snd pxLevel) else [])"
  by (simp add: level_lines_def queue_entries_def entries_of_queue)

lemma entries_of_side_lines:
  "entries_of symb (side_lines symb' d pxLevels)
   = (if symb' = symb then side_entries d pxLevels else [])"
  by (induction pxLevels)
     (auto simp: side_lines_def side_entries_def entries_of_concat entries_of_append
        entries_of_level_lines entries_of_Nil o_def)

lemma entries_of_symbol_lines:
  "entries_of symb (symbol_lines symbolSides)
   = (if fst symbolSides = symb
      then side_entries SELL (asks (snd symbolSides)) @ side_entries BUY (bids (snd symbolSides))
      else [])"
  by (simp add: symbol_lines_def entries_of_append entries_of_side_lines)

lemma entries_of_book:
  assumes "ascending book" and "(symb, sd) \<in> set book"
  shows "entries_of symb (concat (map symbol_lines book))
         = side_entries SELL (asks sd) @ side_entries BUY (bids sd)"
proof -
  have "entries_of symb (concat (map symbol_lines book))
        = concat (map (\<lambda>kv. if fst kv = symb
                             then side_entries SELL (asks (snd kv)) @ side_entries BUY (bids (snd kv))
                             else []) book)"
    by (simp add: entries_of_concat o_def entries_of_symbol_lines)
  also have "\<dots> = side_entries SELL (asks (snd (symb, sd))) @ side_entries BUY (bids (snd (symb, sd)))"
    using assms by (intro concat_single_key ascending_distinct)
  finally show ?thesis by simp
qed

lemma side_of_side_entries: "e \<in> set (side_entries d pxLevels) \<Longrightarrow> entry_side e = d"
  by (auto simp: side_entries_def queue_entries_def entry_side_def)

lemma filter_side_entries:
  "filter (\<lambda>e. entry_side e = d') (side_entries d pxLevels)
   = (if d' = d then side_entries d pxLevels else [])"
  by (auto simp: filter_empty_conv dest: side_of_side_entries intro: filter_True)

lemma px_of_queue_entries: "e \<in> set (queue_entries d p queue) \<Longrightarrow> entry_px e = p"
  by (auto simp: queue_entries_def entry_px_def)

lemma px_of_side_entries:
  "e \<in> set (side_entries d pxLevels) \<Longrightarrow> entry_px e \<in> fst ` set pxLevels"
  by (force simp: side_entries_def queue_entries_def entry_px_def)

lemma side_entries_Cons:
  "side_entries d (pxLevel # pxLevels)
   = side_entries d pxLevels @ queue_entries d (fst pxLevel) (snd pxLevel)"
  by (simp add: side_entries_def)

lemma descending_queue_entries: "descending_prices (queue_entries d p queue)"
  unfolding descending_prices_def
  by (rule sorted_wrt_mono_rel [of _ "\<lambda>e e'. True"]) (auto dest: px_of_queue_entries)

lemma descending_side_entries:
  "ascending_prices pxLevels \<Longrightarrow> descending_prices (side_entries d pxLevels)"
proof (induction pxLevels)
  case Nil
  show ?case by (simp add: side_entries_def descending_prices_def)
next
  case (Cons pxLevel pxLevels)
  from Cons.prems have above: "\<forall>k \<in> fst ` set pxLevels. px_less (fst pxLevel) k"
    and rest: "ascending_prices pxLevels"
    by (auto simp: ascending_prices_def)
  from rest have "descending_prices (side_entries d pxLevels)" by (rule Cons.IH)
  moreover have "descending_prices (queue_entries d (fst pxLevel) (snd pxLevel))"
    by (rule descending_queue_entries)
  moreover have "px_less (entry_px e') (entry_px e)"
    if "e \<in> set (side_entries d pxLevels)"
      and "e' \<in> set (queue_entries d (fst pxLevel) (snd pxLevel))" for e e'
    using that above px_of_side_entries [of e d pxLevels]
      px_of_queue_entries [of e' d "fst pxLevel" "snd pxLevel"]
    by auto
  ultimately show ?case
    by (simp add: side_entries_Cons descending_prices_def sorted_wrt_append)
qed

lemma filter_px_queue_entries:
  "filter (\<lambda>e. entry_px e = p) (queue_entries d p' queue)
   = (if p' = p then queue_entries d p' queue else [])"
  by (induction queue) (auto simp: queue_entries_def entry_px_def)

lemma level_of_side_entries:
  assumes "ascending_prices pxLevels" and "(p, queue) \<in> set pxLevels"
  shows "filter (\<lambda>e. entry_px e = p) (side_entries d pxLevels) = queue_entries d p queue"
proof -
  have "filter (\<lambda>e. entry_px e = p) (side_entries d pxLevels)
        = concat (map (\<lambda>kv. if fst kv = p then queue_entries d (fst kv) (snd kv) else [])
                      (rev pxLevels))"
    by (simp add: side_entries_def filter_concat o_def filter_px_queue_entries)
  also have "\<dots> = queue_entries d (fst (p, queue)) (snd (p, queue))"
    using assms
    by (intro concat_single_key) (simp_all add: rev_map [symmetric] ascending_prices_distinct)
  finally show ?thesis by simp
qed

lemma oid_queue_entries: "map entry_oid (queue_entries d p queue) = map oid queue"
  by (simp add: queue_entries_def entry_oid_def o_def)

text \<open>
  The entries of a symbol in a snapshot: the queues of its ask levels from the last
  level to the first, then those of its bid levels likewise.
\<close>

lemma snapshot_entries:
  assumes "accepted_run accepted s" and "(symb, sd) \<in> set (orderBook s)"
  shows "entries_of symb (printSortedBook s)
         = side_entries SELL (asks sd) @ side_entries BUY (bids sd)"
    and "ask_entries symb (printSortedBook s) = side_entries SELL (asks sd)"
    and "bid_entries symb (printSortedBook s) = side_entries BUY (bids sd)"
proof -
  from assms(1) have "ordered_book (orderBook s)" by (rule accepted_run_ordered)
  then have asc: "ascending (orderBook s)" by (simp add: ordered_book_def)
  from assms(2) have "orderBook s \<noteq> []" by auto
  then show es: "entries_of symb (printSortedBook s)
                 = side_entries SELL (asks sd) @ side_entries BUY (bids sd)"
    using entries_of_book [OF asc assms(2)] by (simp add: printSortedBook_def)
  show "ask_entries symb (printSortedBook s) = side_entries SELL (asks sd)"
    and "bid_entries symb (printSortedBook s) = side_entries BUY (bids sd)"
    by (simp_all add: ask_entries_def bid_entries_def es filter_side_entries)
qed

subsection \<open>What a call returns\<close>

text \<open>Whatever the line, a call of \<open>action\<close> that returns, returns the empty list.\<close>

lemma action_results_empty: "action line s = Inr (results, out, s') \<Longrightarrow> results = []"
  by (auto simp: action_def bind_err_def Let_def split: list.splits if_splits sum.splits)

text \<open>
  A cancel of an identifier that the cache does not hold writes the error line and
  leaves the engine as it is.
\<close>

lemma cancel_unknown:
  "map_find orderId (orderCache s) = None \<Longrightarrow>
   cancelOrder orderId s = Inr (False, s)
   \<and> printCancel orderId False = [ELine orderId ''Order ID not on book'']"
  by (simp add: cancelOrder_def printCancel_def)

subsection \<open>Evaluation\<close>

text \<open>
  The price fields of the examples, read by \<open>stod\<close>. The conversion is evaluated in
  steps: the binary exponent, the count of units at that exponent, and the double.
\<close>

lemma bit_length_numeral:
  "bit_length (numeral (Num.Bit0 n)) = Suc (bit_length (numeral n))"
  "bit_length (numeral (Num.Bit1 n)) = Suc (bit_length (numeral n))"
  "bit_length (numeral Num.One) = 1"
  by (subst bit_length.simps, simp add: numeral_Bit0_div_2 numeral_Bit1_div_2 bit_length.simps)+

lemmas round_defs = scaled_round_def scaled_exact_def round_half_even_def Let_def

lemma exponent_100: "binary_exponent 10000000 100000 = 6"
  by (simp add: binary_exponent_def Let_def bit_length_numeral)

lemma exponent_99: "binary_exponent 9900000 100000 = 6"
  by (simp add: binary_exponent_def Let_def bit_length_numeral)

lemma exponent_101: "binary_exponent 10100000 100000 = 6"
  by (simp add: binary_exponent_def Let_def bit_length_numeral)

lemma exponent_102: "binary_exponent 10200000 100000 = 6"
  by (simp add: binary_exponent_def Let_def bit_length_numeral)

lemma round_100: "scaled_round (- 46) 10000000 100000 = 7036874417766400"
  "scaled_exact (- 46) 10000000 100000"
  by (simp_all add: round_defs)

lemma round_99: "scaled_round (- 46) 9900000 100000 = 6966505673588736"
  "scaled_exact (- 46) 9900000 100000"
  by (simp_all add: round_defs)

lemma round_101: "scaled_round (- 46) 10100000 100000 = 7107243161944064"
  "scaled_exact (- 46) 10100000 100000"
  by (simp_all add: round_defs)

lemma round_102: "scaled_round (- 46) 10200000 100000 = 7177611906121728"
  "scaled_exact (- 46) 10200000 100000"
  by (simp_all add: round_defs)

lemma to_double_100: "to_double False 10000000 100000 = Inr (Number 100)"
  by (simp add: to_double_def Let_def exponent_100 round_100 scale2_def)

lemma to_double_99: "to_double False 9900000 100000 = Inr (Number 99)"
  by (simp add: to_double_def Let_def exponent_99 round_99 scale2_def)

lemma to_double_101: "to_double False 10100000 100000 = Inr (Number 101)"
  by (simp add: to_double_def Let_def exponent_101 round_101 scale2_def)

lemma to_double_102: "to_double False 10200000 100000 = Inr (Number 102)"
  by (simp add: to_double_def Let_def exponent_102 round_102 scale2_def)

lemmas stod_defs = stod_def scaled_def exponent_part_def fraction_part_def xdigits_value_def
  isxdigit_def starts_with_def tolower_def digits_value_def isdigit_def isspace_def Let_def

lemma stod_100: "stod ''100.00000'' = Inr (Number 100)"
  by (simp add: stod_defs to_double_100)

lemma stod_99: "stod ''99.00000'' = Inr (Number 99)"
  by (simp add: stod_defs to_double_99)

lemma stod_101: "stod ''101.00000'' = Inr (Number 101)"
  by (simp add: stod_defs to_double_101)

lemma stod_102: "stod ''102.00000'' = Inr (Number 102)"
  by (simp add: stod_defs to_double_102)

lemma stod_nan: "stod ''nan'' = Inr NaN"
  by (simp add: stod_defs)

text \<open>
  Three more readings: an infinity, a decimal exponent, and a decimal fraction that no
  double equals (0.1 is read as the nearest double, \<open>7205759403792794 / 2^56\<close>).
\<close>

lemma stod_infinity: "stod ''-inf'' = Inr MinusInfinity"
  by (simp add: stod_defs)

lemma stod_exponent: "stod ''1e2'' = Inr (Number 100)"
proof -
  have "binary_exponent 100 1 = 6"
    by (simp add: binary_exponent_def Let_def bit_length_numeral)
  moreover have "scaled_round (- 46) 100 1 = 7036874417766400" "scaled_exact (- 46) 100 1"
    by (simp_all add: round_defs)
  ultimately have "to_double False 100 1 = Inr (Number 100)"
    by (simp add: to_double_def Let_def scale2_def)
  then show ?thesis by (simp add: stod_defs)
qed

lemma stod_rounds: "stod ''0.1'' = Inr (Number (3602879701896397 / 36028797018963968))"
proof -
  have "binary_exponent 1 10 = - 4"
    by (simp add: binary_exponent_def Let_def bit_length_numeral bit_length.simps [of 1])
  moreover have "scaled_round (- 56) 1 10 = 7205759403792794" "\<not> scaled_exact (- 56) 1 10"
    by (simp_all add: round_defs)
  ultimately have "to_double False 1 10 = Inr (Number (3602879701896397 / 36028797018963968))"
    by (simp add: to_double_def Let_def scale2_def)
  then show ?thesis by (simp add: stod_defs)
qed

text \<open>The definitions a concrete run unfolds.\<close>

lemmas parse_defs = stoi_def digits_value_def isdigit_def isspace_def Order_side_def
  stod_100 stod_99 stod_101 stod_102 stod_nan

lemmas map_defs = map_find_def map_insert_def map_subscript_def map_at_def
  map_assign_def no_sides_def px_le_def px_equiv_def weak_order_def levels_find_def
  levels_insert_def levels_erase_def levels_subscript_def levels_at_def levels_assign_def

lemmas engine_defs = action_def bind_err_def placeOrder_def validateOrderId_def
  placeOrderNewSymbol_def placeOrderExistingSymbol_def fillOrder_def fillBid_def fillAsk_def
  crosses_def cancelOrder_def printFills_def printCancel_def printSortedBook_def
  symbol_lines_def side_lines_def level_lines_def new_SimpleCross_def Let_def

lemmas example_defs = session_three_def session_four_def one_bid_def one_bid_cancelled_def
  one_ask_def session_lines_def session_book_def session_sides_def nan_ask_def

lemmas observer_defs = filled_qty_def open_qty_def levels_open_qty_def queue_open_qty_def

text \<open>The example session's engine is reached by running its lines.\<close>

lemma session_book_run:
  "run_lines session_lines new_SimpleCross
   = Inr ([FLine 10000 ''IBM'' 5 (Number 100), FLine 10000 ''IBM'' 5 (Number 100),
           XLine 10002], session_book)"
  by (simp add: parse_defs map_defs engine_defs example_defs)

lemma session_book_accepted:
  "accepted_run [10000, 10001, 10002, 10003, 10004, 10005, 10006, 10007, 10008, 10009]
     session_book"
proof -
  have "accepted_run ([] @ concat (map placed_ids session_lines)) session_book"
    using session_book_run accepted_run.fresh by (rule run_lines_accepted)
  moreover have "concat (map placed_ids session_lines)
                 = [10000, 10001, 10002, 10003, 10004, 10005, 10006, 10007, 10008, 10009]"
    by (simp add: session_lines_def placed_ids_def parse_defs)
  ultimately show ?thesis by simp
qed

text \<open>
  A price that is not a number beside two levels: the comparison is no strict weak
  ordering of the three keys, and the lookup of the third order's price is undefined.
\<close>

lemma nan_beside_two_levels:
  "run_lines [''O 1 IBM S 10 100.00000'', ''O 2 IBM S 10 101.00000'', ''O 3 IBM S 10 nan'']
     new_SimpleCross = Inl broken_order"
  by (simp add: parse_defs map_defs engine_defs)

section \<open>The claims\<close>

text \<open>
  C1, on the code: the results of a line are not in the sequence \<open>action\<close> returns. After
  the first three lines of the header's example session, the fourth line
  \<open>O 10003 IBM S 5 100.00000\<close> crosses the resting buy 10000; \<open>action\<close> returns the
  empty list, and the fill is written to standard output by \<open>log\<close> instead. (The header
  comment of the source expects \<open>results.size() == 2\<close> there.)
\<close>

theorem C1_action_returns_empty_list:
  "run_lines [''O 10000 IBM B 10 100.00000'', ''O 10001 IBM B 10 99.00000'',
              ''O 10002 IBM S 5 101.00000''] new_SimpleCross = Inr ([], session_three)
   \<and> action ''O 10003 IBM S 5 100.00000'' session_three
       = Inr ([], [FLine 10000 ''IBM'' 5 (Number 100)], session_four)"
  by (simp add: parse_defs map_defs engine_defs example_defs)

text \<open>
  C2, on the code: \<open>action\<close> does not return normally on every line. On \<open>X abc\<close> the
  exception of \<open>std::stoi\<close> leaves \<open>action\<close> (nothing catches it, and no E line is
  written), and on the empty line \<open>instructions[0]\<close> reads an empty vector.
\<close>

theorem C2_action_throws_on_malformed_line:
  "action ''X abc'' new_SimpleCross = Inl (invalid_argument ''stoi'')
   \<and> action [] new_SimpleCross
       = Inl (undefined_behaviour ''instructions[0] of an empty vector'')"
  by (simp add: parse_defs map_defs engine_defs example_defs)

text \<open>
  C3, on the code: a match emits one fill record, not two. The four lines of the header's
  example session write the single line \<open>F 10000 IBM 5 100\<close> for the resting order;
  no record bears the identifier 10003 of the incoming order.
\<close>

theorem C3_one_fill_record_per_match:
  "run_lines [''O 10000 IBM B 10 100.00000'', ''O 10001 IBM B 10 99.00000'',
              ''O 10002 IBM S 5 101.00000'', ''O 10003 IBM S 5 100.00000''] new_SimpleCross
   = Inr ([FLine 10000 ''IBM'' 5 (Number 100)], session_four)"
  by (simp add: parse_defs map_defs engine_defs example_defs)

text \<open>
  C4, on the code: a book can hold an ask that is not above a bid. \<open>action\<close> checks
  nothing about the price field, and \<open>std::stod\<close> reads \<open>nan\<close> as a double that is
  not a number. The sell order 1 rests at that price. The buy order 2 at 100 is tested
  with \<open>order.px >= askPrice\<close>, which is false for every comparison with such a value,
  so it rests too: both sides have a level, and the only ask price is not greater than
  the only bid price.
\<close>

theorem C4_ask_rests_at_no_number:
  "run_lines [''O 1 IBM S 10 nan'', ''O 2 IBM B 10 100.00000''] new_SimpleCross
   = Inr ([], nan_ask)
   \<and> map fst (asks (map_at ''IBM'' no_sides (orderBook nan_ask))) = [NaN]
   \<and> map fst (bids (map_at ''IBM'' no_sides (orderBook nan_ask))) = [Number 100]
   \<and> \<not> px_less (Number 100) NaN"
  by (simp add: parse_defs map_defs engine_defs example_defs)

text \<open>
  C5, on the code: the order removed from a queue is the one at the back, not the one
  whose quantity has reached 0. Orders 1 (quantity 5) and 2 (quantity 10) rest at the
  same bid price; the sell order 3 of quantity 5 fills order 1 completely. Afterwards the
  queue holds order 1 with open quantity 0, and the untouched order 2 is gone.
\<close>

theorem C5_pop_back_removes_the_wrong_order:
  "run_lines [''O 1 IBM B 5 100.00000'', ''O 2 IBM B 10 100.00000'',
              ''O 3 IBM S 5 100.00000''] new_SimpleCross
   = Inr ([FLine 1 ''IBM'' 5 (Number 100)],
          \<lparr>orderBook =
             [(''IBM'',
               \<lparr>bids = [(Number 100,
                         [\<lparr>oid = 1, symbol = ''IBM'', side = BUY, qty = 0, px = Number 100\<rparr>])],
                asks = []\<rparr>)],
           orderCache =
             [(1, \<lparr>oid = 1, symbol = ''IBM'', side = BUY, qty = 5, px = Number 100\<rparr>),
              (2, \<lparr>oid = 2, symbol = ''IBM'', side = BUY, qty = 10, px = Number 100\<rparr>)]\<rparr>)"
  by (simp add: parse_defs map_defs engine_defs example_defs)

text \<open>
  C6, on the code: placing an identifier a second time writes no E line; the exception
  \<open>invalid_argument("Invalid Order ID")\<close> of \<open>_validateOrderId\<close> leaves \<open>action\<close>.
\<close>

theorem C6_duplicate_identifier_throws:
  "run_lines [''O 10008 IBM S 10 102.00000'', ''O 10008 IBM S 10 102.00000''] new_SimpleCross
   = Inl (invalid_argument ''Invalid Order ID'')"
  by (simp add: parse_defs map_defs engine_defs example_defs)

text \<open>
  C7, on the code: a second \<open>X 1\<close> after a successful cancel of order 1 does not write
  the error line. The cache still holds the identifier, the search of the queue ends at
  \<open>end()\<close>, and \<open>erase\<close> of that iterator is undefined.
\<close>

theorem C7_second_cancel_is_undefined:
  "run_lines [''O 1 IBM B 10 100.00000''] new_SimpleCross = Inr ([], one_bid)
   \<and> action ''X 1'' one_bid = Inr ([], [XLine 1], one_bid_cancelled)
   \<and> action ''X 1'' one_bid_cancelled
       = Inl (undefined_behaviour ''erase of the end iterator'')"
  by (simp add: parse_defs map_defs engine_defs example_defs)

text \<open>
  C8, as stated, fails on the code: within a price level the snapshot lists the queue
  from front to back, the earliest accepted order first. After the lines of the example
  session, \<open>P\<close> lists 10001 before 10005 at 99 (and 10008 before 10009 at 102),
  although 10005 and 10009 were accepted last; the snapshot the claim describes would
  list 10005 and 10009 first.
\<close>

theorem C8_snapshot_counterexample:
  "run_lines session_lines new_SimpleCross
   = Inr ([FLine 10000 ''IBM'' 5 (Number 100), FLine 10000 ''IBM'' 5 (Number 100),
           XLine 10002], session_book)
   \<and> action ''P'' session_book
       = Inr ([], [PLine 10008 ''IBM'' SELL 10 (Number 102),
                   PLine 10009 ''IBM'' SELL 10 (Number 102),
                   PLine 10007 ''IBM'' SELL 10 (Number 101),
                   PLine 10006 ''IBM'' BUY 10 (Number 100),
                   PLine 10001 ''IBM'' BUY 10 (Number 99),
                   PLine 10005 ''IBM'' BUY 10 (Number 99)], session_book)
   \<and> spec_snapshot session_book
       = [PLine 10009 ''IBM'' SELL 10 (Number 102), PLine 10008 ''IBM'' SELL 10 (Number 102),
          PLine 10007 ''IBM'' SELL 10 (Number 101), PLine 10006 ''IBM'' BUY 10 (Number 100),
          PLine 10005 ''IBM'' BUY 10 (Number 99), PLine 10001 ''IBM'' BUY 10 (Number 99)]
   \<and> printSortedBook session_book \<noteq> spec_snapshot session_book"
  by (simp add: parse_defs map_defs engine_defs example_defs spec_snapshot_def
      spec_level_lines_def)

text \<open>
  C8, amended: for every snapshot written by the line \<open>P\<close>, in an engine reached by
  placing and cancelling orders, the entries of a symbol are all its asks followed by
  all its bids, and the prices of each part never increase from top to bottom. The
  entries are those of the resting orders and no others: every entry bears the price of
  a level of its side, the entries at the price of an ask level are the orders of that
  level's queue, and the entries at the price of a bid level are the orders of that
  level's queue from front to back, which is the order in which they were accepted
  (earliest first). The order within an ask level is left open.
\<close>

theorem C8_snapshot_order:
  assumes "accepted_run accepted s" and "action ''P'' s = Inr (results, out, s')"
    and "(symb, sd) \<in> set (orderBook s)"
  shows "entries_of symb out = ask_entries symb out @ bid_entries symb out
         \<and> descending_prices (ask_entries symb out)
         \<and> descending_prices (bid_entries symb out)
         \<and> entry_px ` set (ask_entries symb out) \<subseteq> fst ` set (asks sd)
         \<and> entry_px ` set (bid_entries symb out) \<subseteq> fst ` set (bids sd)
         \<and> (\<forall>p queue. (p, queue) \<in> set (asks sd) \<longrightarrow>
               mset (filter (\<lambda>e. entry_px e = p) (ask_entries symb out))
               = mset (queue_entries SELL p queue))
         \<and> (\<forall>p queue. (p, queue) \<in> set (bids sd) \<longrightarrow>
               filter (\<lambda>e. entry_px e = p) (bid_entries symb out) = queue_entries BUY p queue
               \<and> subseq (map entry_oid (filter (\<lambda>e. entry_px e = p) (bid_entries symb out)))
                     accepted)"
proof -
  from assms(2) have out: "out = printSortedBook s" by (auto simp: action_def)
  note es = snapshot_entries [OF assms(1,3), folded out]
  from assms(1) have "ordered_book (orderBook s)" by (rule accepted_run_ordered)
  then have "ordered_sides (snd (symb, sd))"
    unfolding ordered_book_def using assms(3) by blast
  then have os: "ascending_prices (bids sd)" "ascending_prices (asks sd)"
    by (simp_all add: ordered_sides_def)
  from assms(1) have "arrival_book accepted (orderBook s)" by (rule accepted_run_arrival)
  then have "arrival_sides accepted (snd (symb, sd))"
    unfolding arrival_book_def using assms(3) by (rule bspec)
  then have "in_arrival_order accepted (bids sd)" by (simp add: arrival_sides_def)
  then have arr: "\<forall>p queue. (p, queue) \<in> set (bids sd) \<longrightarrow> subseq (map oid queue) accepted"
    by (auto simp: in_arrival_order_def)
  have prices: "entry_px ` set (side_entries d pxLevels) \<subseteq> fst ` set pxLevels" for d pxLevels
    using px_of_side_entries [of _ d pxLevels] by blast
  show ?thesis
    by (simp add: es descending_side_entries os level_of_side_entries oid_queue_entries arr
        prices)
qed

text \<open>
  The example session's engine, with the two sell orders 10008 and 10009 at 102 and the
  two buy orders 10001 and 10005 at 99, and the identifiers of the session in the order
  of their acceptance.
\<close>

theorem C8_snapshot_order_witness:
  "accepted_run [10000, 10001, 10002, 10003, 10004, 10005, 10006, 10007, 10008, 10009]
     session_book
   \<and> (''IBM'', session_sides) \<in> set (orderBook session_book)
   \<and> entries_of ''IBM'' (printSortedBook session_book)
       = ask_entries ''IBM'' (printSortedBook session_book)
         @ bid_entries ''IBM'' (printSortedBook session_book)
   \<and> descending_prices (ask_entries ''IBM'' (printSortedBook session_book))
   \<and> descending_prices (bid_entries ''IBM'' (printSortedBook session_book))
   \<and> entry_px ` set (ask_entries ''IBM'' (printSortedBook session_book))
       \<subseteq> fst ` set (asks session_sides)
   \<and> entry_px ` set (bid_entries ''IBM'' (printSortedBook session_book))
       \<subseteq> fst ` set (bids session_sides)
   \<and> mset (filter (\<lambda>e. entry_px e = Number 102)
              (ask_entries ''IBM'' (printSortedBook session_book)))
       = mset [(10008, SELL, 10, Number 102), (10009, SELL, 10, Number 102)]
   \<and> filter (\<lambda>e. entry_px e = Number 99) (bid_entries ''IBM'' (printSortedBook session_book))
       = [(10001, BUY, 10, Number 99), (10005, BUY, 10, Number 99)]
   \<and> subseq [10001, 10005 :: OrderId]
        [10000, 10001, 10002, 10003, 10004, 10005, 10006, 10007, 10008, 10009]"
proof -
  have h1: "accepted_run [10000, 10001, 10002, 10003, 10004, 10005, 10006, 10007, 10008, 10009]
              session_book"
    by (rule session_book_accepted)
  have h2: "action ''P'' session_book = Inr ([], printSortedBook session_book, session_book)"
    by (simp add: action_def)
  have h3: "(''IBM'', session_sides) \<in> set (orderBook session_book)"
    by (simp add: session_book_def)
  have h4: "(Number 99, [\<lparr>oid = 10001, symbol = ''IBM'', side = BUY, qty = 10, px = Number 99\<rparr>,
                  \<lparr>oid = 10005, symbol = ''IBM'', side = BUY, qty = 10, px = Number 99\<rparr>])
            \<in> set (bids session_sides)"
    by (simp add: session_sides_def)
  have h5: "(Number 102, [\<lparr>oid = 10008, symbol = ''IBM'', side = SELL, qty = 10, px = Number 102\<rparr>,
                  \<lparr>oid = 10009, symbol = ''IBM'', side = SELL, qty = 10, px = Number 102\<rparr>])
            \<in> set (asks session_sides)"
    by (simp add: session_sides_def)
  note inst = C8_snapshot_order [OF h1 h2 h3]
  from inst h4
  have bid: "filter (\<lambda>e. entry_px e = Number 99)
           (bid_entries ''IBM'' (printSortedBook session_book))
        = queue_entries BUY (Number 99)
            [\<lparr>oid = 10001, symbol = ''IBM'', side = BUY, qty = 10, px = Number 99\<rparr>,
             \<lparr>oid = 10005, symbol = ''IBM'', side = BUY, qty = 10, px = Number 99\<rparr>]
        \<and> subseq (map entry_oid
                   (filter (\<lambda>e. entry_px e = Number 99)
                      (bid_entries ''IBM'' (printSortedBook session_book))))
            [10000, 10001, 10002, 10003, 10004, 10005, 10006, 10007, 10008, 10009]"
    by blast
  from inst h5
  have ask: "mset (filter (\<lambda>e. entry_px e = Number 102)
                    (ask_entries ''IBM'' (printSortedBook session_book)))
        = mset (queue_entries SELL (Number 102)
            [\<lparr>oid = 10008, symbol = ''IBM'', side = SELL, qty = 10, px = Number 102\<rparr>,
             \<lparr>oid = 10009, symbol = ''IBM'', side = SELL, qty = 10, px = Number 102\<rparr>])"
    by blast
  from inst have rest: "entries_of ''IBM'' (printSortedBook session_book)
       = ask_entries ''IBM'' (printSortedBook session_book)
         @ bid_entries ''IBM'' (printSortedBook session_book)"
    "descending_prices (ask_entries ''IBM'' (printSortedBook session_book))"
    "descending_prices (bid_entries ''IBM'' (printSortedBook session_book))"
    "entry_px ` set (ask_entries ''IBM'' (printSortedBook session_book))
       \<subseteq> fst ` set (asks session_sides)"
    "entry_px ` set (bid_entries ''IBM'' (printSortedBook session_book))
       \<subseteq> fst ` set (bids session_sides)"
    by blast+
  from bid have bid': "filter (\<lambda>e. entry_px e = Number 99)
           (bid_entries ''IBM'' (printSortedBook session_book))
       = [(10001, BUY, 10, Number 99), (10005, BUY, 10, Number 99)]"
    "subseq [10001, 10005 :: OrderId]
        [10000, 10001, 10002, 10003, 10004, 10005, 10006, 10007, 10008, 10009]"
    by (simp_all add: queue_entries_def entry_oid_def)
  from ask have ask': "mset (filter (\<lambda>e. entry_px e = Number 102)
              (ask_entries ''IBM'' (printSortedBook session_book)))
       = mset [(10008, SELL, 10, Number 102), (10009, SELL, 10, Number 102)]"
    by (simp add: queue_entries_def)
  from h1 h3 rest ask' bid' show ?thesis by (intro conjI)
qed

text \<open>
  C9, on the code: quantities are not conserved. Order 1 rests with quantity 10; the buy
  order 2 of quantity 5 crosses it. The fill line gives order 1 a fill of 5, yet its
  open quantity in the book is still 10 (\<open>_fillBid\<close> reduces a copy of the queue), and
  no fill line bears the identifier 2 of the incoming order, which is fully filled.
\<close>

theorem C9_quantity_not_conserved:
  "run_lines [''O 1 IBM S 10 100.00000''] new_SimpleCross = Inr ([], one_ask)
   \<and> action ''O 2 IBM B 5 100.00000'' one_ask
       = Inr ([], [FLine 1 ''IBM'' 5 (Number 100)], one_ask)
   \<and> filled_qty 1 [FLine 1 ''IBM'' 5 (Number 100)] + open_qty 1 one_ask = 15
   \<and> filled_qty 2 [FLine 1 ''IBM'' 5 (Number 100)] + open_qty 2 one_ask = 0"
  by (simp add: parse_defs map_defs engine_defs example_defs observer_defs)

text \<open>
  C10: the line \<open>P\<close> leaves the engine as it is, in every state: \<open>action\<close> returns the
  empty list, writes the snapshot, and the order book and the order cache are unchanged.
\<close>

theorem C10_print_leaves_engine_unchanged:
  "action ''P'' s = Inr ([], printSortedBook s, s)"
  by (simp add: action_def)

end
